theory Spec2Isabelle
  imports Complex_Main "HOL-Library.Word"
begin

unbundle bit_operations_syntax

section \<open>Audio helpers (src/utils/audioHelpers.ts)\<close>

text \<open>
  Bytes are 8-bit words. Samples are modelled as reals: every Float32 value is a dyadic
  rational, and each arithmetic step of the two helpers (division of a 16-bit integer by
  32768, the comparison \<open>0.5 + sample < 0\<close>, the products with 32768 and 32767) is exact in
  binary64 on such values, so the real number computed here is the number the program
  computes. NaN samples are outside the model.
\<close>

type_synonym byte = "8 word"

datatype error =
    RangeError
  | NotSupportedError
  | IndexSizeError
  | InvalidCharacterError
  | TypeError
  | Error string

record AudioBuffer =
  numberOfChannels :: nat
  bufLength :: nat
  sampleRate :: nat
  channelData :: "real list list"

text \<open>
  The part of an AudioContext that \<open>createBuffer\<close> depends on: the limits of the
  implementation (the Web Audio API fixes only that at least 32 channels and the rates
  8000 to 96000 Hz are supported).
\<close>

record AudioContext =
  maxChannels :: nat
  minSampleRate :: nat
  maxSampleRate :: nat

text \<open>Conversion of a non-negative number to a WebIDL \<open>unsigned long\<close>.\<close>

definition unsigned_long :: "nat \<Rightarrow> nat" where
  "unsigned_long n = n mod 2 ^ 32"

text \<open>
  \<open>BaseAudioContext.createBuffer\<close>: a NotSupportedError when the channel count or the
  length is zero or an argument is outside its nominal range; otherwise a buffer of
  silence.
\<close>

definition createBuffer :: "AudioContext \<Rightarrow> nat \<Rightarrow> nat \<Rightarrow> nat \<Rightarrow> error + AudioBuffer" where
  "createBuffer ctx numChannels len rate =
     (if unsigned_long numChannels = 0 \<or> maxChannels ctx < unsigned_long numChannels
         \<or> unsigned_long len = 0
         \<or> rate < minSampleRate ctx \<or> maxSampleRate ctx < rate
      then Inl NotSupportedError
      else Inr \<lparr> numberOfChannels = unsigned_long numChannels,
                 bufLength = unsigned_long len,
                 sampleRate = rate,
                 channelData = replicate (unsigned_long numChannels)
                                 (replicate (unsigned_long len) 0) \<rparr>)"

text \<open>Element \<open>i\<close> of a little-endian Int16Array view placed at offset 0 of the bytes.\<close>

definition int16_le :: "byte \<Rightarrow> byte \<Rightarrow> 16 word" where
  "int16_le lo hi = push_bit 8 (ucast hi) OR ucast lo"

text \<open>
  \<open>new Int16Array(data.buffer, data.byteOffset, data.byteLength / 2)\<close>: the length
  argument goes through ToIndex, which truncates, so an odd trailing byte is ignored.
  The byte buffer is the whole array (byteOffset 0), as \<open>decodeBase64\<close> builds it.
\<close>

definition Int16Array :: "byte list \<Rightarrow> 16 word list" where
  "Int16Array data =
     map (\<lambda>i. int16_le (data ! (2 * i)) (data ! (2 * i + 1))) [0..<length data div 2]"

text \<open>A store into a typed array; outside the array it is ignored.\<close>

definition typed_store :: "'a list \<Rightarrow> nat \<Rightarrow> 'a \<Rightarrow> 'a list" where
  "typed_store xs i v = (if i < length xs then xs[i := v] else xs)"

text \<open>The inner loop of \<open>decodeAudioData\<close> (lines 35 to 38) on one channel.\<close>

definition fill_channel :: "16 word list \<Rightarrow> real list \<Rightarrow> real list" where
  "fill_channel dataInt16 channelData0 =
     fold (\<lambda>i cd. typed_store cd i (real_of_int (sint (dataInt16 ! i)) / 32768))
       [0..<length dataInt16] channelData0"

text \<open>
  \<open>decodeAudioData\<close>. The second argument of \<open>createBuffer\<close> is the quotient
  \<open>dataInt16.length / numChannels\<close>, truncated by the conversion to \<open>unsigned long\<close>
  (an infinite or NaN quotient, for zero channels, converts to 0). The outer loop runs
  over \<open>numChannels\<close>; \<open>getChannelData\<close> raises for a channel the buffer lacks, an
  IndexSizeError.
\<close>

definition frames_arg :: "nat \<Rightarrow> nat \<Rightarrow> nat" where
  "frames_arg n numChannels = (if numChannels = 0 then 0 else n div numChannels)"

definition fill_step :: "16 word list \<Rightarrow> nat \<Rightarrow> error + AudioBuffer \<Rightarrow> error + AudioBuffer" where
  "fill_step dataInt16 channel r =
     (case r of
        Inl e \<Rightarrow> Inl e
      | Inr buffer \<Rightarrow>
          if channel < numberOfChannels buffer \<and> channel < length (channelData buffer)
          then Inr (buffer\<lparr> channelData :=
                 (channelData buffer)
                   [channel := fill_channel dataInt16 (channelData buffer ! channel)] \<rparr>)
          else Inl IndexSizeError)"

definition decodeAudioData :: "byte list \<Rightarrow> AudioContext \<Rightarrow> nat \<Rightarrow> nat \<Rightarrow> error + AudioBuffer" where
  "decodeAudioData data ctx rate numChannels =
     (let dataInt16 = Int16Array data in
      case createBuffer ctx numChannels (frames_arg (length dataInt16) numChannels) rate of
        Inl e \<Rightarrow> Inl e
      | Inr buffer \<Rightarrow> fold (fill_step dataInt16) [0..<numChannels] (Inr buffer))"

text \<open>
  The formats an audio context accepts, and a context with the limits of a current
  browser, for the examples.
\<close>

definition supported :: "AudioContext \<Rightarrow> nat \<Rightarrow> nat \<Rightarrow> bool" where
  "supported ctx rate numChannels \<longleftrightarrow>
     0 < numChannels \<and> numChannels \<le> maxChannels ctx \<and> numChannels < 2 ^ 32
     \<and> minSampleRate ctx \<le> rate \<and> rate \<le> maxSampleRate ctx"

definition ctx0 :: AudioContext where
  "ctx0 = \<lparr>maxChannels = 32, minSampleRate = 3000, maxSampleRate = 768000\<rparr>"

subsection \<open>The WAV encoder\<close>

text \<open>Truncation toward zero, and the \<open>| 0\<close> of line 84 (ToInt32: truncate, wrap to 32 bits).\<close>

definition trunc :: "real \<Rightarrow> int" where
  "trunc x = (if x < 0 then \<lceil>x\<rceil> else \<lfloor>x\<rfloor>)"

definition ToInt32 :: "real \<Rightarrow> int" where
  "ToInt32 x = sint (word_of_int (trunc x) :: 32 word)"

text \<open>Lines 82 and 84: clamp, then scale to a 16-bit signed integer.\<close>

definition sample16 :: "real \<Rightarrow> int" where
  "sample16 x =
     (let sample = max (- 1) (min 1 x)
      in ToInt32 (if 0.5 + sample < 0 then sample * 32768 else sample * 32767))"

text \<open>
  \<open>channels[i][pos]\<close> followed by lines 82 and 84. A read past the end of a
  Float32Array is \<open>undefined\<close>; \<open>Math.min\<close> makes it NaN and \<open>NaN | 0\<close> is 0.
\<close>

definition sample16_at :: "real list list \<Rightarrow> nat \<Rightarrow> nat \<Rightarrow> int" where
  "sample16_at channels i pos =
     (if pos < length (channels ! i) then sample16 (channels ! i ! pos) else 0)"

text \<open>
  A DataView over the ArrayBuffer: little-endian stores of 16 and 32 bits. The value is
  reduced modulo the width; a store that does not fit in the buffer raises RangeError.
\<close>

definition bytes16 :: "16 word \<Rightarrow> byte list" where
  "bytes16 w = [ucast w, ucast (drop_bit 8 w)]"

definition bytes32 :: "32 word \<Rightarrow> byte list" where
  "bytes32 w = [ucast w, ucast (drop_bit 8 w), ucast (drop_bit 16 w), ucast (drop_bit 24 w)]"

definition view_write :: "byte list \<Rightarrow> nat \<Rightarrow> byte list \<Rightarrow> error + byte list" where
  "view_write view p bs =
     (if p + length bs \<le> length view
      then Inr (take p view @ bs @ drop (p + length bs) view)
      else Inl RangeError)"

definition view_setUint16 :: "byte list \<Rightarrow> nat \<Rightarrow> nat \<Rightarrow> error + byte list" where
  "view_setUint16 view p d = view_write view p (bytes16 (word_of_nat d))"

definition view_setUint32 :: "byte list \<Rightarrow> nat \<Rightarrow> nat \<Rightarrow> error + byte list" where
  "view_setUint32 view p d = view_write view p (bytes32 (word_of_nat d))"

definition view_setInt16 :: "byte list \<Rightarrow> nat \<Rightarrow> int \<Rightarrow> error + byte list" where
  "view_setInt16 view p d = view_write view p (bytes16 (word_of_int d))"

text \<open>
  The two local functions of \<open>audioBufferToWav\<close> (lines 93 to 101). They share the
  variables \<open>view\<close> and \<open>pos\<close> with the body; the state is the pair of both.
\<close>

definition setUint16 :: "nat \<Rightarrow> byte list \<times> nat \<Rightarrow> error + byte list \<times> nat" where
  "setUint16 d st =
     (case view_setUint16 (fst st) (snd st) d of
        Inl e \<Rightarrow> Inl e
      | Inr view \<Rightarrow> Inr (view, snd st + 2))"

definition setUint32 :: "nat \<Rightarrow> byte list \<times> nat \<Rightarrow> error + byte list \<times> nat" where
  "setUint32 d st =
     (case view_setUint32 (fst st) (snd st) d of
        Inl e \<Rightarrow> Inl e
      | Inr view \<Rightarrow> Inr (view, snd st + 4))"

text \<open>A sequence of statements, stopped by the first exception.\<close>

fun run :: "('s \<Rightarrow> error + 's) list \<Rightarrow> 's \<Rightarrow> error + 's" where
  "run [] s = Inr s"
| "run (f # fs) s = (case f s of Inl e \<Rightarrow> Inl e | Inr s' \<Rightarrow> run fs s')"

text \<open>Lines 59 to 73; the last store reads \<open>pos\<close> as it is at that moment.\<close>

definition write_header :: "AudioBuffer \<Rightarrow> nat \<Rightarrow> nat \<Rightarrow> byte list \<times> nat \<Rightarrow> error + byte list \<times> nat" where
  "write_header buffer numOfChan len =
     run [ setUint32 0x46464952,
           setUint32 (len - 8),
           setUint32 0x45564157,
           setUint32 0x20746d66,
           setUint32 16,
           setUint16 1,
           setUint16 numOfChan,
           setUint32 (sampleRate buffer),
           setUint32 (sampleRate buffer * 2 * numOfChan),
           setUint16 (numOfChan * 2),
           setUint16 16,
           setUint32 0x61746164,
           (\<lambda>st. setUint32 (len - snd st - 4) st) ]"

text \<open>Lines 76 and 77: \<open>getChannelData\<close> raises IndexSizeError for a missing channel.\<close>

definition getChannelData :: "AudioBuffer \<Rightarrow> nat \<Rightarrow> error + real list" where
  "getChannelData buffer i =
     (if i < numberOfChannels buffer \<and> i < length (channelData buffer)
      then Inr (channelData buffer ! i) else Inl IndexSizeError)"

definition push_channel :: "AudioBuffer \<Rightarrow> nat \<Rightarrow> real list list \<Rightarrow> error + real list list" where
  "push_channel buffer i channels =
     (case getChannelData buffer i of
        Inl e \<Rightarrow> Inl e
      | Inr cd \<Rightarrow> Inr (channels @ [cd]))"

text \<open>
  Lines 79 to 89. The body of the inner loop stores one sample at \<open>44 + offset\<close>; the
  state of the inner loop is \<open>(view, offset)\<close>. The outer loop tests and advances
  \<open>pos\<close>, the variable the header stores have advanced before.
\<close>

definition write_sample :: "real list list \<Rightarrow> nat \<Rightarrow> nat \<Rightarrow> byte list \<times> nat \<Rightarrow> error + byte list \<times> nat" where
  "write_sample channels pos i st =
     (case view_setInt16 (fst st) (44 + snd st) (sample16_at channels i pos) of
        Inl e \<Rightarrow> Inl e
      | Inr view \<Rightarrow> Inr (view, snd st + 2))"

function write_data :: "AudioBuffer \<Rightarrow> real list list \<Rightarrow> nat \<Rightarrow> byte list \<times> nat \<Rightarrow> nat \<Rightarrow> error + byte list" where
  "write_data buffer channels numOfChan st pos =
     (if pos < bufLength buffer
      then (case run (map (write_sample channels pos) [0..<numOfChan]) st of
              Inl e \<Rightarrow> Inl e
            | Inr st' \<Rightarrow> write_data buffer channels numOfChan st' (pos + 1))
      else Inr (fst st))"
  by pat_completeness auto
termination
  by (relation "measure (\<lambda>(buffer, channels, numOfChan, st, pos). bufLength buffer - pos)") auto

text \<open>\<open>audioBufferToWav\<close>; the result is the content of the Blob.\<close>

definition audioBufferToWav :: "AudioBuffer \<Rightarrow> error + byte list" where
  "audioBufferToWav buffer =
     (let numOfChan = numberOfChannels buffer;
          len = bufLength buffer * numOfChan * 2 + 44;
          view = replicate len 0
      in case write_header buffer numOfChan len (view, 0) of
           Inl e \<Rightarrow> Inl e
         | Inr (view', pos) \<Rightarrow>
             (case run (map (push_channel buffer) [0..<numberOfChannels buffer]) [] of
                Inl e \<Rightarrow> Inl e
              | Inr channels \<Rightarrow> write_data buffer channels numOfChan (view', 0) pos))"

subsection \<open>Reading the container back\<close>

text \<open>
  The repository has no decoder of its own for the container: history replay hands the
  Blob to the browser's \<open>decodeAudioData\<close>. The readers of the header fields below
  are the inverses of the little-endian stores of the encoder.
\<close>

datatype wav_error = UnsupportedFormatError

definition uint16_le :: "byte list \<Rightarrow> nat \<Rightarrow> nat" where
  "uint16_le bs p = unat (bs ! p) + 256 * unat (bs ! (p + 1))"

definition uint32_le :: "byte list \<Rightarrow> nat \<Rightarrow> nat" where
  "uint32_le bs p =
     unat (bs ! p) + 256 * unat (bs ! (p + 1)) + 65536 * unat (bs ! (p + 2))
       + 16777216 * unat (bs ! (p + 3))"

definition chunk_id :: "byte list \<Rightarrow> nat \<Rightarrow> byte list" where
  "chunk_id bs p = take 4 (drop p bs)"

text \<open>
  Modelled from the spec: the validation of the WAV Decoder of section 4.3, for the
  canonical 44-byte header that section 4.2 describes. The four chunk markers must be in
  place, the format tag must be 1 (PCM) and the bit depth 16, there is at least one
  channel, and the data chunk lies within the bytes.
\<close>

definition wav_header_ok :: "byte list \<Rightarrow> bool" where
  "wav_header_ok bs \<longleftrightarrow>
     44 \<le> length bs
     \<and> chunk_id bs 0 = [0x52, 0x49, 0x46, 0x46]
     \<and> chunk_id bs 8 = [0x57, 0x41, 0x56, 0x45]
     \<and> chunk_id bs 12 = [0x66, 0x6d, 0x74, 0x20]
     \<and> chunk_id bs 36 = [0x64, 0x61, 0x74, 0x61]
     \<and> uint16_le bs 20 = 1
     \<and> uint16_le bs 34 = 16
     \<and> 0 < uint16_le bs 22
     \<and> 44 + uint32_le bs 40 \<le> length bs"

text \<open>
  Modelled from the spec: the WAV Decoder of section 4.3, which is not in the repository.
  A header that fails the validation is an UnsupportedFormatError; otherwise the channel
  count, the sample rate and the size of the data chunk are read from the header, and
  the samples are de-quantized by the mapping of the PCM decoder (the 16-bit
  little-endian integer divided by 32768), frame by frame in channel-interleaved order.
\<close>

definition wav_decode :: "byte list \<Rightarrow> wav_error + AudioBuffer" where
  "wav_decode bs =
     (if wav_header_ok bs
      then
        (let ch = uint16_le bs 22;
             rate = uint32_le bs 24;
             dataSize = uint32_le bs 40;
             frames = dataSize div (2 * ch);
             samples = Int16Array (take dataSize (drop 44 bs))
         in Inr \<lparr> numberOfChannels = ch, bufLength = frames, sampleRate = rate,
                    channelData =
                      map (\<lambda>c. map (\<lambda>f. real_of_int (sint (samples ! (f * ch + c))) / 32768)
                                [0..<frames])
                        [0..<ch] \<rparr>)
      else Inl UnsupportedFormatError)"

subsection \<open>Notions for the statements about the encoder\<close>

text \<open>
  A valid Sample Buffer (section 3 of the specification): at least one channel, every
  channel of the buffer's frame count, every sample in \<open>[-1, 1]\<close>.
\<close>

definition valid_buffer :: "AudioBuffer \<Rightarrow> bool" where
  "valid_buffer b \<longleftrightarrow>
     0 < numberOfChannels b
     \<and> length (channelData b) = numberOfChannels b
     \<and> list_all (\<lambda>cd. length cd = bufLength b \<and> list_all (\<lambda>x. - 1 \<le> x \<and> x \<le> 1) cd)
          (channelData b)"

text \<open>Mono buffers of 45 equal samples at 24000 Hz, for the examples.\<close>

definition constant_buffer :: "real \<Rightarrow> AudioBuffer" where
  "constant_buffer x =
     \<lparr> numberOfChannels = 1, bufLength = 45, sampleRate = 24000,
       channelData = [replicate 45 x] \<rparr>"

text \<open>The 44 bytes that lines 59 to 73 store, field by field.\<close>

definition header_bytes :: "nat \<Rightarrow> nat \<Rightarrow> nat \<Rightarrow> byte list" where
  "header_bytes rate numOfChan len =
     bytes32 (word_of_nat 0x46464952) @ bytes32 (word_of_nat (len - 8))
     @ bytes32 (word_of_nat 0x45564157) @ bytes32 (word_of_nat 0x20746d66)
     @ bytes32 (word_of_nat 16) @ bytes16 (word_of_nat 1) @ bytes16 (word_of_nat numOfChan)
     @ bytes32 (word_of_nat rate) @ bytes32 (word_of_nat (rate * 2 * numOfChan))
     @ bytes16 (word_of_nat (numOfChan * 2)) @ bytes16 (word_of_nat 16)
     @ bytes32 (word_of_nat 0x61746164) @ bytes32 (word_of_nat (len - 44))"

text \<open>
  The product of line 84 with the test \<open>0.5 + sample < 0\<close> solved for the sample, for
  the statements about \<open>sample16\<close>.
\<close>

definition scaled :: "real \<Rightarrow> real" where
  "scaled x = (let c = max (- 1) (min 1 x) in if c < - 1 / 2 then c * 32768 else c * 32767)"

section \<open>The playback controller (src/components/AudioPlayer.tsx)\<close>

text \<open>
  The component keeps three pieces of React state (\<open>isPlaying\<close>, \<open>currentTime\<close>,
  \<open>duration\<close>), refs that survive renders, and reads three props. The buffer-time
  cursor of the specification is \<open>pausedTimeRef\<close>; the wall clock is the
  \<open>currentTime\<close> of the audio context, kept here as the content of
  \<open>audioContextRef\<close> (\<open>None\<close> while the ref is null). Of a source node the model
  keeps the arguments it was started with, whether it has been stopped, and the value of
  \<open>isPlaying\<close> that its \<open>onended\<close> handler closed over. The analyser and the
  canvas are left out: no state below depends on them.
\<close>

record SourceNode =
  src_offset :: real
  src_playbackRate :: real
  src_detune :: real
  src_stopped :: bool
  src_onended :: bool

record AudioPlayer =
  audioBuffer :: "AudioBuffer option"
  speed :: real
  pitch :: real
  isPlaying :: bool
  currentTime :: real
  duration :: real
  audioContextRef :: "real option"
  sourceNodeRef :: "SourceNode option"
  startTimeRef :: real
  pausedTimeRef :: real

text \<open>\<open>AudioBuffer.duration\<close>: the frame count over the sample rate, in seconds.\<close>

definition buffer_duration :: "AudioBuffer \<Rightarrow> real" where
  "buffer_duration b = real (bufLength b) / real (sampleRate b)"

text \<open>The values of the first render (lines 18 to 28).\<close>

definition initial :: "AudioBuffer option \<Rightarrow> real \<Rightarrow> real \<Rightarrow> AudioPlayer" where
  "initial buf sp pt =
     \<lparr> audioBuffer = buf, speed = sp, pitch = pt,
       isPlaying = False, currentTime = 0, duration = 0,
       audioContextRef = None, sourceNodeRef = None,
       startTimeRef = 0, pausedTimeRef = 0 \<rparr>"

text \<open>\<open>initAudioContext\<close>: a new context starts its clock at 0.\<close>

definition initAudioContext :: "AudioPlayer \<Rightarrow> AudioPlayer" where
  "initAudioContext s =
     (if audioContextRef s = None then s\<lparr> audioContextRef := Some 0 \<rparr> else s)"

text \<open>\<open>stop()\<close> on a started source node; a second call has no effect.\<close>

definition source_stop :: "SourceNode \<Rightarrow> SourceNode" where
  "source_stop src = src\<lparr> src_stopped := True \<rparr>"

text \<open>
  \<open>playAudio\<close> (lines 101 to 160). The first argument is the value of \<open>isPlaying\<close>
  in the render that created the function: the \<open>onended\<close> handler closes over it.
  \<open>source.start(0, offset)\<close> raises RangeError for a negative offset. Resuming a
  suspended context is not modelled.
\<close>

definition playAudio :: "bool \<Rightarrow> AudioPlayer \<Rightarrow> error + AudioPlayer" where
  "playAudio rendered s =
     (case audioBuffer s of
        None \<Rightarrow> Inr s
      | Some buf \<Rightarrow>
          (let s1 = initAudioContext s in
           case audioContextRef s1 of
             None \<Rightarrow> Inr s1
           | Some now \<Rightarrow>
               (let s2 = s1\<lparr> sourceNodeRef := map_option source_stop (sourceNodeRef s1) \<rparr>;
                    offset = pausedTimeRef s2
                in if offset < 0 then Inl RangeError
                   else Inr (s2\<lparr> startTimeRef := now,
                                  sourceNodeRef := Some \<lparr> src_offset = offset,
                                                          src_playbackRate = speed s2,
                                                          src_detune = pitch s2,
                                                          src_stopped = False,
                                                          src_onended = rendered \<rparr>,
                                  isPlaying := True \<rparr>))))"

text \<open>The \<open>onended\<close> handler of a source node (lines 146 to 159).\<close>

definition onended :: "SourceNode \<Rightarrow> AudioPlayer \<Rightarrow> AudioPlayer" where
  "onended src s =
     (if src_onended src
      then s\<lparr> isPlaying := False, currentTime := 0, pausedTimeRef := 0 \<rparr>
      else s)"

text \<open>
  \<open>pauseAudio\<close> (lines 162 to 178). Reading \<open>audioBuffer.duration\<close> of a null buffer
  is a TypeError.
\<close>

definition pauseAudio :: "AudioPlayer \<Rightarrow> error + AudioPlayer" where
  "pauseAudio s =
     (case sourceNodeRef s of
        None \<Rightarrow> Inr s
      | Some src \<Rightarrow>
          (case audioContextRef s of
             None \<Rightarrow> Inr s
           | Some now \<Rightarrow>
               (let wallTimeElapsed = now - startTimeRef s;
                    paused = pausedTimeRef s + wallTimeElapsed * speed s
                in case audioBuffer s of
                     None \<Rightarrow> Inl TypeError
                   | Some buf \<Rightarrow>
                       Inr (s\<lparr> sourceNodeRef := Some (source_stop src),
                                pausedTimeRef :=
                                  (if paused > buffer_duration buf then 0 else paused),
                                isPlaying := False \<rparr>))))"

text \<open>\<open>stopAudio\<close> (lines 180 to 193); an exception of \<open>stop()\<close> would be caught.\<close>

definition stopAudio :: "AudioPlayer \<Rightarrow> AudioPlayer" where
  "stopAudio s =
     s\<lparr> sourceNodeRef := map_option source_stop (sourceNodeRef s),
        isPlaying := False, currentTime := 0, pausedTimeRef := 0 \<rparr>"

text \<open>The Restart button (line 287): \<open>stopAudio(); playAudio();\<close> in one handler.\<close>

definition restart :: "AudioPlayer \<Rightarrow> error + AudioPlayer" where
  "restart s = playAudio (isPlaying s) (stopAudio s)"

text \<open>One animation frame of the progress effect (\<open>updateProgress\<close>, lines 213 to 228).\<close>

definition updateProgress :: "AudioPlayer \<Rightarrow> AudioPlayer" where
  "updateProgress s =
     (if isPlaying s
      then (case audioContextRef s of
              None \<Rightarrow> s
            | Some now \<Rightarrow>
                (let wallTimeElapsed = now - startTimeRef s;
                     bufferPlayed = pausedTimeRef s + wallTimeElapsed * speed s;
                     s1 = s\<lparr> currentTime := min bufferPlayed (duration s) \<rparr>
                 in if bufferPlayed < duration s then s1
                    else s1\<lparr> isPlaying := False, currentTime := 0, pausedTimeRef := 0 \<rparr>))
      else s)"

text \<open>
  The effect on the buffer (lines 31 to 45), with the \<open>autoPlay\<close> prop, and the effect on
  the playback parameters (lines 48 to 53) after the parent has changed the speed.
\<close>

definition bufferEffect :: "bool \<Rightarrow> AudioPlayer \<Rightarrow> error + AudioPlayer" where
  "bufferEffect autoPlay s =
     (case audioBuffer s of
        None \<Rightarrow> Inr s
      | Some buf \<Rightarrow>
          (let s1 = s\<lparr> duration := buffer_duration buf, currentTime := 0,
                         pausedTimeRef := 0 \<rparr>
           in if autoPlay then playAudio (isPlaying s) s1 else Inr s1))"

definition setSpeed :: "real \<Rightarrow> AudioPlayer \<Rightarrow> AudioPlayer" where
  "setSpeed r s =
     s\<lparr> speed := r,
        sourceNodeRef := map_option (\<lambda>src. src\<lparr> src_playbackRate := r \<rparr>) (sourceNodeRef s) \<rparr>"

text \<open>The wall clock of the audio context advances by \<open>dt\<close> seconds.\<close>

definition advance :: "real \<Rightarrow> AudioPlayer \<Rightarrow> AudioPlayer" where
  "advance dt s = s\<lparr> audioContextRef := map_option (\<lambda>now. now + dt) (audioContextRef s) \<rparr>"



text \<open>
  The states of a session on the buffer \<open>b\<close>: the component is mounted with the buffer
  and a speed in \<open>[0.5, 2]\<close>, with or without \<open>autoPlay\<close>; then the buttons are
  pressed (each handler is the one of the latest render), the clock advances, the
  progress effect runs a frame, the speed changes within \<open>[0.5, 2]\<close>, and the
  \<open>onended\<close> handler of a source node of the session, of any activation, fires.
\<close>

inductive reachable :: "AudioBuffer \<Rightarrow> AudioPlayer \<Rightarrow> bool" for b :: AudioBuffer where
  mounted: "0.5 \<le> sp \<Longrightarrow> sp \<le> 2 \<Longrightarrow> bufferEffect autoPlay (initial (Some b) sp pt) = Inr s
              \<Longrightarrow> reachable b s"
| play: "reachable b s \<Longrightarrow> playAudio (isPlaying s) s = Inr s' \<Longrightarrow> reachable b s'"
| pause: "reachable b s \<Longrightarrow> pauseAudio s = Inr s' \<Longrightarrow> reachable b s'"
| stop: "reachable b s \<Longrightarrow> reachable b (stopAudio s)"
| again: "reachable b s \<Longrightarrow> restart s = Inr s' \<Longrightarrow> reachable b s'"
| clock: "reachable b s \<Longrightarrow> 0 \<le> dt \<Longrightarrow> reachable b (advance dt s)"
| frame: "reachable b s \<Longrightarrow> reachable b (updateProgress s)"
| rate: "reachable b s \<Longrightarrow> 0.5 \<le> r \<Longrightarrow> r \<le> 2 \<Longrightarrow> reachable b (setSpeed r s)"
| ended: "reachable b s \<Longrightarrow> reachable b (onended src s)"

text \<open>Two mono buffers at 24000 Hz for the examples: two seconds, and a quarter second.\<close>

definition two_seconds :: AudioBuffer where
  "two_seconds = \<lparr> numberOfChannels = 1, bufLength = 48000, sampleRate = 24000,
                   channelData = [replicate 48000 0] \<rparr>"

definition quarter_second :: AudioBuffer where
  "quarter_second = \<lparr> numberOfChannels = 1, bufLength = 6000, sampleRate = 24000,
                      channelData = [replicate 6000 0] \<rparr>"

text \<open>
  The state of the component once it is mounted on the buffer \<open>b\<close> without
  \<open>autoPlay\<close>: the Stopped state of a session.
\<close>

definition stopped_session :: "AudioBuffer \<Rightarrow> real \<Rightarrow> real \<Rightarrow> AudioPlayer" where
  "stopped_session b sp pt = (initial (Some b) sp pt)\<lparr> duration := buffer_duration b \<rparr>"

text \<open>The invariant of a session on the buffer \<open>b\<close>.\<close>

definition session_inv :: "AudioBuffer \<Rightarrow> AudioPlayer \<Rightarrow> bool" where
  "session_inv b s \<longleftrightarrow>
     audioBuffer s = Some b \<and> duration s = buffer_duration b
     \<and> 1 / 2 \<le> speed s \<and> speed s \<le> 2
     \<and> 0 \<le> pausedTimeRef s \<and> pausedTimeRef s \<le> buffer_duration b
     \<and> 0 \<le> currentTime s \<and> currentTime s \<le> buffer_duration b
     \<and> (case audioContextRef s of None \<Rightarrow> True | Some now \<Rightarrow> startTimeRef s \<le> now)"

section \<open>The application (App.tsx, services/geminiService.ts)\<close>

subsection \<open>\<open>decodeBase64\<close>\<close>

text \<open>
  \<open>atob\<close> is the forgiving-base64 decoder of the platform: ASCII whitespace is
  removed; if the length is then a multiple of 4, one or two trailing \<open>=\<close> are removed;
  a length of 1 modulo 4 or a character outside the alphabet is an
  InvalidCharacterError; every character stands for six bits, and the bits left over at
  the end are dropped. The result is a binary string, one character per byte; it is kept
  here as the list of its character codes.
\<close>

definition is_ascii_whitespace :: "char \<Rightarrow> bool" where
  "is_ascii_whitespace c \<longleftrightarrow> c \<in> set [CHR 0x09, CHR 0x0A, CHR 0x0C, CHR 0x0D, CHR 0x20]"

definition strip_padding :: "string \<Rightarrow> string" where
  "strip_padding d =
     (if length d mod 4 = 0 \<and> d \<noteq> [] \<and> last d = CHR ''=''
      then (if butlast d \<noteq> [] \<and> last (butlast d) = CHR ''='' then butlast (butlast d)
            else butlast d)
      else d)"

definition b64_index :: "char \<Rightarrow> nat option" where
  "b64_index c =
     (let n = (of_char c :: nat)
      in if 65 \<le> n \<and> n \<le> 90 then Some (n - 65)
         else if 97 \<le> n \<and> n \<le> 122 then Some (n - 71)
         else if 48 \<le> n \<and> n \<le> 57 then Some (n + 4)
         else if n = 43 then Some 62
         else if n = 47 then Some 63
         else None)"

fun b64_bytes :: "nat list \<Rightarrow> nat list" where
  "b64_bytes (a # b # c # d # rest) =
     (let n = ((a * 64 + b) * 64 + c) * 64 + d
      in n div 65536 # n div 256 mod 256 # n mod 256 # b64_bytes rest)"
| "b64_bytes [a, b, c] =
     (let n = ((a * 64 + b) * 64 + c) div 4 in [n div 256, n mod 256])"
| "b64_bytes [a, b] = [(a * 64 + b) div 16]"
| "b64_bytes _ = []"

definition atob :: "string \<Rightarrow> error + nat list" where
  "atob data =
     (let d = strip_padding (filter (\<lambda>c. \<not> is_ascii_whitespace c) data)
      in if length d mod 4 = 1 then Inl InvalidCharacterError
         else (case those (map b64_index d) of
                 None \<Rightarrow> Inl InvalidCharacterError
               | Some sextets \<Rightarrow> Inr (b64_bytes sextets)))"

text \<open>
  \<open>decodeBase64\<close> (lines 4 to 12): \<open>charCodeAt\<close> of every character, stored into a
  Uint8Array.
\<close>

definition decodeBase64 :: "string \<Rightarrow> error + byte list" where
  "decodeBase64 base64 =
     (case atob base64 of
        Inl e \<Rightarrow> Inl e
      | Inr binaryString \<Rightarrow> Inr (map of_nat binaryString))"

subsection \<open>\<open>generateSpeech\<close>\<close>

datatype VoiceName = Puck | Charon | Kore | Fenrir | Zephyr

text \<open>
  A part of the response: its \<open>inlineData\<close>, if any, with its \<open>data\<close>, if any. What
  lies outside the program is a record of the environment: the API key, the remote
  service (its answer is the \<open>parts\<close> of the first candidate, if any, or a failure), the
  constructor of the audio context, the random identifier, the clock, and the message the
  platform gives to its own exceptions.
\<close>

type_synonym Part = "string option option"

record Env =
  API_KEY :: string
  generateContent :: "string \<Rightarrow> VoiceName \<Rightarrow> error + Part list option"
  newAudioContext :: "error + AudioContext"
  randomUUID :: string
  dateNow :: nat
  platformMessage :: "error \<Rightarrow> string"

definition no_audio :: error where
  "no_audio = Error ''No audio data returned from the model.''"

definition generateSpeech :: "Env \<Rightarrow> string \<Rightarrow> VoiceName \<Rightarrow> error + string" where
  "generateSpeech env txt voiceName =
     (if API_KEY env = []
      then Inl (Error ''API Key is missing. Please check your environment configuration.'')
      else (case generateContent env txt voiceName of
              Inl e \<Rightarrow> Inl e
            | Inr parts \<Rightarrow>
                (case find (\<lambda>p. p \<noteq> None) (case parts of None \<Rightarrow> [] | Some ps \<Rightarrow> ps) of
                   None \<Rightarrow> Inl no_audio
                 | Some audioPart \<Rightarrow>
                     (case audioPart of
                        Some (Some d) \<Rightarrow> if d = [] then Inl no_audio else Inr d
                      | _ \<Rightarrow> Inl no_audio))))"

subsection \<open>\<open>handleGenerate\<close>\<close>

record HistoryItem =
  item_id :: string
  item_text :: string
  item_voice :: VoiceName
  item_timestamp :: nat
  item_audioBlob :: "byte list"
  item_duration :: real
  item_speed :: real
  item_pitch :: real

record App =
  app_text :: string
  selectedVoice :: VoiceName
  app_speed :: real
  app_pitch :: real
  isLoading :: bool
  app_error :: "string option"
  currentAudioBuffer :: "AudioBuffer option"
  history :: "HistoryItem list"

text \<open>
  \<open>String.prototype.trim\<close>, on the six white-space characters of ASCII. The code also
  strips U+00A0 and the other white space of Unicode, so a script that the code takes
  for non-blank is non-blank here too.
\<close>

definition is_space :: "char \<Rightarrow> bool" where
  "is_space c \<longleftrightarrow> c \<in> set [CHR 0x09, CHR 0x0A, CHR 0x0B, CHR 0x0C, CHR 0x0D, CHR 0x20]"

definition trim :: "string \<Rightarrow> string" where
  "trim s = rev (dropWhile is_space (rev (dropWhile is_space s)))"

text \<open>\<open>err.message\<close>, and the \<open>catch\<close> and \<open>finally\<close> blocks (lines 55 to 60).\<close>

definition message :: "Env \<Rightarrow> error \<Rightarrow> string" where
  "message env e = (case e of Error m \<Rightarrow> m | _ \<Rightarrow> platformMessage env e)"

definition failed :: "Env \<Rightarrow> error \<Rightarrow> App \<Rightarrow> App" where
  "failed env e s =
     s\<lparr> app_error := Some (if message env e = []
                            then ''Failed to generate speech. Please try again.''
                            else message env e),
        isLoading := False \<rparr>"

text \<open>The history entry of lines 42 to 51.\<close>

definition newItem :: "Env \<Rightarrow> App \<Rightarrow> AudioBuffer \<Rightarrow> byte list \<Rightarrow> HistoryItem" where
  "newItem env s audioBuffer' wavBlob =
     \<lparr> item_id = randomUUID env,
       item_text = take 60 (app_text s) @ (if length (app_text s) > 60 then ''...'' else ''''),
       item_voice = selectedVoice s,
       item_timestamp = dateNow env,
       item_audioBlob = wavBlob,
       item_duration = buffer_duration audioBuffer',
       item_speed = app_speed s,
       item_pitch = app_pitch s \<rparr>"

text \<open>
  \<open>handleGenerate\<close> (lines 20 to 61). The state setters run in the order of the source;
  an exception leaves the state as it is at the statement that raised it and runs
  \<open>catch\<close> and \<open>finally\<close>.
\<close>

definition handleGenerate :: "Env \<Rightarrow> App \<Rightarrow> App" where
  "handleGenerate env s =
     (if trim (app_text s) = [] then s
      else
        (let s1 = s\<lparr> isLoading := True, app_error := None, currentAudioBuffer := None \<rparr>
         in case generateSpeech env (app_text s) (selectedVoice s) of
              Inl e \<Rightarrow> failed env e s1
            | Inr base64Audio \<Rightarrow>
                (case decodeBase64 base64Audio of
                   Inl e \<Rightarrow> failed env e s1
                 | Inr audioBytes \<Rightarrow>
                     (case newAudioContext env of
                        Inl e \<Rightarrow> failed env e s1
                      | Inr audioContext \<Rightarrow>
                          (case decodeAudioData audioBytes audioContext 24000 1 of
                             Inl e \<Rightarrow> failed env e s1
                           | Inr audioBuffer' \<Rightarrow>
                               (let s2 = s1\<lparr> currentAudioBuffer := Some audioBuffer' \<rparr>
                                in case audioBufferToWav audioBuffer' of
                                     Inl e \<Rightarrow> failed env e s2
                                   | Inr wavBlob \<Rightarrow>
                                       s2\<lparr> history := newItem env s audioBuffer' wavBlob
                                                         # history s2,
                                           isLoading := False \<rparr>))))))"

text \<open>
  An environment whose service answers with the base64 text \<open>AA==\<close>, a single byte,
  and an application state with a script, for the examples.
\<close>

definition one_byte_env :: Env where
  "one_byte_env =
     \<lparr> API_KEY = ''key'',
       generateContent = (\<lambda>txt voiceName. Inr (Some [Some (Some ''AA=='')])),
       newAudioContext = Inr ctx0,
       randomUUID = ''00000000-0000-4000-8000-000000000000'',
       dateNow = 0,
       platformMessage = (\<lambda>e. ''The number of frames provided (0) is less than or equal to the minimum bound (0).'') \<rparr>"

definition hello_app :: App where
  "hello_app =
     \<lparr> app_text = ''Hello'', selectedVoice = Kore, app_speed = 1, app_pitch = 0,
       isLoading = False, app_error = None, currentAudioBuffer = None, history = [] \<rparr>"
section \<open>Properties of the PCM decoder\<close>

lemma fold_store:
  "n \<le> length d \<Longrightarrow>
   fold (\<lambda>i cd. typed_store cd i (g (d ! i))) [0..<n] cd
     = map (\<lambda>i. g (d ! i)) [0..<min n (length cd)] @ drop n cd"
proof (induction n)
  case 0 then show ?case by simp
next
  case (Suc n)
  define r where "r = fold (\<lambda>i cd. typed_store cd i (g (d ! i))) [0..<n] cd"
  have IH: "r = map (\<lambda>i. g (d ! i)) [0..<min n (length cd)] @ drop n cd"
    unfolding r_def using Suc by simp
  have step: "fold (\<lambda>i cd. typed_store cd i (g (d ! i))) [0..<Suc n] cd = typed_store r n (g (d ! n))"
    by (simp add: r_def)
  show ?case
  proof (cases "n < length cd")
    case True
    then have m: "min n (length cd) = n" "min (Suc n) (length cd) = Suc n" by simp_all
    have dr: "drop n cd = cd ! n # drop (Suc n) cd" using True by (simp add: Cons_nth_drop_Suc)
    have r: "r = map (\<lambda>i. g (d ! i)) [0..<n] @ cd ! n # drop (Suc n) cd"
      using IH m dr by simp
    have "typed_store r n (g (d ! n)) = map (\<lambda>i. g (d ! i)) [0..<n] @ g (d ! n) # drop (Suc n) cd"
      unfolding r typed_store_def by (simp add: list_update_append)
    then show ?thesis unfolding step m by simp
  next
    case False
    then have m: "min n (length cd) = length cd" "min (Suc n) (length cd) = length cd" by simp_all
    have r: "r = map (\<lambda>i. g (d ! i)) [0..<length cd]" using IH m False by simp
    have "typed_store r n (g (d ! n)) = r" using False unfolding r typed_store_def by simp
    then show ?thesis unfolding step m using r False by simp
  qed
qed

lemma fill_channel_eq:
  "fill_channel d cd =
     map (\<lambda>i. real_of_int (sint (d ! i)) / 32768) [0..<min (length d) (length cd)] @ drop (length d) cd"
  unfolding fill_channel_def
  using fold_store [of "length d" d "\<lambda>w. real_of_int (sint w) / 32768" cd] by simp

lemma fold_fill_step:
  assumes "n \<le> ch" "F \<le> length d"
  shows "fold (fill_step d) [0..<n]
           (Inr \<lparr>numberOfChannels = ch, bufLength = F, sampleRate = r,
                 channelData = replicate ch (replicate F 0)\<rparr>)
         = Inr \<lparr>numberOfChannels = ch, bufLength = F, sampleRate = r,
                 channelData = replicate n (map (\<lambda>i. real_of_int (sint (d ! i)) / 32768) [0..<F])
                               @ replicate (ch - n) (replicate F 0)\<rparr>"
  using assms(1)
proof (induction n)
  case 0 then show ?case by simp
next
  case (Suc n)
  then have lt: "n < ch" by simp
  have rep: "replicate (ch - n) (replicate F (0::real)) = replicate F 0 # replicate (ch - Suc n) (replicate F 0)"
    using lt by (metis Suc_diff_Suc replicate_Suc)
  have fc: "fill_channel d (replicate F 0) = map (\<lambda>i. real_of_int (sint (d ! i)) / 32768) [0..<F]"
    using assms(2) by (simp add: fill_channel_eq min_absorb2)
  show ?case using Suc lt
    by (simp add: fill_step_def nth_append rep list_update_append fc replicate_append_same)
qed

lemma length_Int16Array: "length (Int16Array data) = length data div 2"
  by (simp add: Int16Array_def)

lemma nth_Int16Array:
  "i < length data div 2 \<Longrightarrow> Int16Array data ! i = int16_le (data ! (2 * i)) (data ! (2 * i + 1))"
  by (simp add: Int16Array_def)

lemma decodeAudioData_frames:
  assumes sup: "supported ctx rate ch"
    and F: "F = length data div 2 div ch" and pos: "0 < F" and small: "F < 2 ^ 32"
  shows "decodeAudioData data ctx rate ch =
           Inr \<lparr>numberOfChannels = ch, bufLength = F, sampleRate = rate,
                 channelData = replicate ch
                   (map (\<lambda>i. real_of_int (sint (Int16Array data ! i)) / 32768) [0..<F])\<rparr>"
proof -
  have ch: "0 < ch" "ch \<le> maxChannels ctx" "ch < 2 ^ 32"
    "minSampleRate ctx \<le> rate" "rate \<le> maxSampleRate ctx"
    using sup by (simp_all add: supported_def)
  have ul: "unsigned_long ch = ch" "unsigned_long F = F"
    using ch small by (simp_all add: unsigned_long_def)
  have fa: "frames_arg (length (Int16Array data)) ch = F"
    using ch F by (simp add: frames_arg_def length_Int16Array)
  have cb: "createBuffer ctx ch F rate =
      Inr \<lparr>numberOfChannels = ch, bufLength = F, sampleRate = rate,
            channelData = replicate ch (replicate F 0)\<rparr>"
    using ch pos by (simp add: createBuffer_def ul)
  have le: "F \<le> length (Int16Array data)"
    unfolding F length_Int16Array by (rule div_le_dividend)
  show ?thesis
    unfolding decodeAudioData_def Let_def fa cb
    using fold_fill_step [of ch ch F "Int16Array data" rate] le by simp
qed

lemma decodeAudioData_no_frames:
  assumes "length data div 2 div ch = 0"
  shows "decodeAudioData data ctx rate ch = Inl NotSupportedError"
proof -
  have "frames_arg (length (Int16Array data)) ch = 0"
    using assms by (simp add: frames_arg_def length_Int16Array)
  then show ?thesis
    by (simp add: decodeAudioData_def createBuffer_def unsigned_long_def)
qed

text \<open>
  Claim C3, as amended. For a byte buffer whose length is a positive multiple of
  \<open>2 * channelCount\<close> (below \<open>2^33\<close> bytes, in a format the audio context supports)
  the decoder reads the bytes as 16-bit little-endian signed integers and divides each
  by 32768; the buffer has \<open>length / (2 * channelCount)\<close> frames, and frame \<open>f\<close> of
  every channel holds the integer at position \<open>f\<close> of the byte stream: the inner loop
  is the mono loop, run once per channel, and nothing is de-interleaved. For one
  channel this is the layout the claim describes.
\<close>

theorem decodeAudioData_layout:
  assumes "supported ctx rate ch" and "2 * ch dvd length data"
    and "0 < length data" and "length data < 2 ^ 33"
  shows "\<exists>b. decodeAudioData data ctx rate ch = Inr b
           \<and> numberOfChannels b = ch \<and> sampleRate b = rate
           \<and> bufLength b = length data div (2 * ch)
           \<and> length (channelData b) = ch
           \<and> (\<forall>c<ch. length (channelData b ! c) = bufLength b
                 \<and> (\<forall>f<bufLength b. channelData b ! c ! f =
                       real_of_int (sint (int16_le (data ! (2 * f)) (data ! (2 * f + 1)))) / 32768))"
proof -
  define F where "F = length data div 2 div ch"
  have ch: "0 < ch" using assms(1) by (simp add: supported_def)
  have F2: "F = length data div (2 * ch)" by (simp add: F_def div_mult2_eq)
  have "2 * ch \<le> length data" using assms(2,3) by (simp add: dvd_imp_le)
  then have pos: "0 < F" unfolding F2 using ch by (simp add: div_greater_zero_iff)
  have "length data div 2 < 2 ^ 32" using assms(4) by simp
  moreover have "F \<le> length data div 2" unfolding F_def by (rule div_le_dividend)
  ultimately have small: "F < 2 ^ 32" by (rule le_less_trans [rotated])
  have le: "F \<le> length data div 2" unfolding F_def by (rule div_le_dividend)
  show ?thesis
    unfolding decodeAudioData_frames [OF assms(1) F_def pos small] F2 [symmetric]
    using le by (simp add: nth_Int16Array)
qed

text \<open>The hypotheses of C3 hold for four 16-bit integers on two channels.\<close>

theorem decodeAudioData_layout_witness:
  "supported ctx0 24000 2 \<and> 2 * 2 dvd length [1, 0, 2, 0, 3, 0, 4, 0 :: byte]
   \<and> (\<exists>b. decodeAudioData [1, 0, 2, 0, 3, 0, 4, 0] ctx0 24000 2 = Inr b
          \<and> numberOfChannels b = 2 \<and> bufLength b = 2
          \<and> (\<forall>c<2. \<forall>f<bufLength b. channelData b ! c ! f =
                real_of_int (sint (int16_le ([1, 0, 2, 0, 3, 0, 4, 0] ! (2 * f))
                                            ([1, 0, 2, 0, 3, 0, 4, 0] ! (2 * f + 1)))) / 32768))"
proof -
  have s: "supported ctx0 24000 2" by (simp add: supported_def ctx0_def)
  have len: "length [1, 0, 2, 0, 3, 0, 4, 0 :: byte] = 8" by simp
  have d: "2 * 2 dvd length [1, 0, 2, 0, 3, 0, 4, 0 :: byte]" unfolding len by simp
  have p: "0 < length [1, 0, 2, 0, 3, 0, 4, 0 :: byte]" unfolding len by simp
  have l: "length [1, 0, 2, 0, 3, 0, 4, 0 :: byte] < 2 ^ 33" unfolding len by simp
  from decodeAudioData_layout [OF s d p l] show ?thesis using s d by auto
qed

text \<open>
  Claim C3 as stated fails for two channels: the stream 1, 2, 3, 4 would have to give
  channel 0 the integers 1, 3 (positions 0 and 2) and channel 1 the integers 2, 4
  (positions 1 and 3); both channels get 1, 2. Frame 1 of channel 0 is the sample of
  position 1, not of position 2.
\<close>

theorem decodeAudioData_stereo_counterexample:
  "decodeAudioData [1, 0, 2, 0, 3, 0, 4, 0] ctx0 24000 2 =
     Inr \<lparr>numberOfChannels = 2, bufLength = 2, sampleRate = 24000,
           channelData = [[1 / 32768, 2 / 32768], [1 / 32768, 2 / 32768]]\<rparr>
   \<and> real_of_int (sint (Int16Array [1, 0, 2, 0, 3, 0, 4, 0] ! 2)) / 32768 = 3 / 32768
   \<and> real_of_int (sint (Int16Array [1, 0, 2, 0, 3, 0, 4, 0] ! 1)) / 32768 = 2 / 32768"
proof -
  have s: "supported ctx0 24000 2" by (simp add: supported_def ctx0_def)
  have i: "Int16Array [1, 0, 2, 0, 3, 0, 4, 0] = [1, 2, 3, 4]"
    by (simp add: Int16Array_def int16_le_def upt_rec)
  show ?thesis
    unfolding decodeAudioData_frames [OF s, of 2 "[1, 0, 2, 0, 3, 0, 4, 0]", simplified] i
    by (simp add: upt_rec numeral_2_eq_2)
qed

text \<open>
  Claim C4, as amended. For a byte buffer whose length is not a multiple of
  \<open>2 * channelCount\<close> the decoder has no check of its own and no MalformedAudioError:
  the Int16Array drops an odd trailing byte, the frame count is the truncated quotient
  \<open>\<lfloor>\<lfloor>length / 2\<rfloor> / channelCount\<rfloor>\<close>, and the decoder returns a buffer of that many
  frames, or, when the count is zero, the NotSupportedError of \<open>createBuffer\<close>.
\<close>

theorem decodeAudioData_ragged:
  assumes "supported ctx rate ch" and "\<not> 2 * ch dvd length data" and "length data < 2 ^ 33"
  shows "decodeAudioData data ctx rate ch =
           (if length data div 2 div ch = 0 then Inl NotSupportedError
            else Inr \<lparr>numberOfChannels = ch, bufLength = length data div 2 div ch,
                       sampleRate = rate,
                       channelData = replicate ch
                         (map (\<lambda>i. real_of_int (sint (Int16Array data ! i)) / 32768)
                            [0..<length data div 2 div ch])\<rparr>)"
proof (cases "length data div 2 div ch = 0")
  case True
  then show ?thesis by (simp add: decodeAudioData_no_frames)
next
  case False
  have "length data div 2 < 2 ^ 32" using assms(3) by simp
  moreover have "length data div 2 div ch \<le> length data div 2" by (rule div_le_dividend)
  ultimately have small: "length data div 2 div ch < 2 ^ 32" by (rule le_less_trans [rotated])
  from False have pos: "0 < length data div 2 div ch" by simp
  show ?thesis using False decodeAudioData_frames [OF assms(1) refl pos small] by simp
qed

text \<open>The hypotheses of C4 hold for three bytes of mono audio, which decode to one frame.\<close>

theorem decodeAudioData_ragged_witness:
  "supported ctx0 24000 1 \<and> \<not> 2 * 1 dvd length [1, 0, 2 :: byte]
   \<and> decodeAudioData [1, 0, 2] ctx0 24000 1 =
       Inr \<lparr>numberOfChannels = 1, bufLength = 1, sampleRate = 24000,
             channelData = replicate 1
               (map (\<lambda>i. real_of_int (sint (Int16Array [1, 0, 2] ! i)) / 32768) [0..<1])\<rparr>"
proof -
  have s: "supported ctx0 24000 1" by (simp add: supported_def ctx0_def)
  have len: "length [1, 0, 2 :: byte] = 3" by simp
  have d: "\<not> 2 * 1 dvd length [1, 0, 2 :: byte]" unfolding len by simp
  have l: "length [1, 0, 2 :: byte] < 2 ^ 33" unfolding len by simp
  from decodeAudioData_ragged [OF s d l] show ?thesis using s d by (simp add: len)
qed

text \<open>
  Claim C4 as stated fails for three bytes of mono audio: the decoder returns a Sample
  Buffer of one frame.
\<close>

theorem decodeAudioData_odd_counterexample:
  "decodeAudioData [1, 0, 2] ctx0 24000 1 =
     Inr \<lparr>numberOfChannels = 1, bufLength = 1, sampleRate = 24000,
           channelData = [[1 / 32768]]\<rparr>"
  by (simp add: decodeAudioData_def createBuffer_def frames_arg_def unsigned_long_def
      ctx0_def Int16Array_def int16_le_def fill_step_def fill_channel_def typed_store_def)

text \<open>
  Claim C5, as amended. For a zero-length byte buffer the decoder asks the audio context
  for a buffer of zero frames, which \<open>createBuffer\<close> refuses: the decoder fails with
  NotSupportedError, whatever the context, the sample rate and the channel count.
\<close>

theorem decodeAudioData_empty:
  "decodeAudioData [] ctx rate numChannels = Inl NotSupportedError"
  by (simp add: decodeAudioData_no_frames)

text \<open>
  Claim C5 as stated fails: the empty buffer, decoded as the application does (mono,
  24000 Hz), raises an error and yields no Sample Buffer.
\<close>

theorem decodeAudioData_empty_counterexample:
  "decodeAudioData [] ctx0 24000 1 = Inl NotSupportedError"
  by (simp add: decodeAudioData_def createBuffer_def frames_arg_def unsigned_long_def
      Int16Array_def)

section \<open>Properties of the WAV encoder\<close>


lemma int16_le_bytes16: "int16_le (ucast w) (ucast (drop_bit 8 w)) = w"
  unfolding int16_le_def
  by (rule bit_word_eqI) (auto simp: bit_simps)

lemma trunc_range:
  assumes "- 32768 \<le> v" "v \<le> 32767"
  shows "- 32768 \<le> trunc v \<and> trunc v \<le> 32767"
  using assms unfolding trunc_def by (auto simp: ceiling_le_iff le_floor_iff le_ceiling_iff floor_le_iff)

lemma scaled_range: "- 32768 \<le> scaled x \<and> scaled x \<le> 32767"
  unfolding scaled_def Let_def by (auto simp: max_def min_def)

lemma sint32_small: "- 32768 \<le> k \<Longrightarrow> k \<le> 32767 \<Longrightarrow> sint (word_of_int k :: 32 word) = k"
  by (simp add: sint_sbintrunc' signed_take_bit_int_eq_self)

lemma sint16_small: "- 32768 \<le> k \<Longrightarrow> k \<le> 32767 \<Longrightarrow> sint (word_of_int k :: 16 word) = k"
  by (simp add: sint_sbintrunc' signed_take_bit_int_eq_self)

lemma sample16_eq: "sample16 x = trunc (scaled x)"
proof -
  have r: "- 32768 \<le> trunc (scaled x) \<and> trunc (scaled x) \<le> 32767"
    using scaled_range [of x] trunc_range by blast
  have c: "(0.5 + max (- 1) (min 1 x) < 0) = (max (- 1) (min 1 x) < - 1 / 2)" by auto
  have "sample16 x = ToInt32 (scaled x)"
    unfolding sample16_def scaled_def Let_def c by simp
  also have "\<dots> = trunc (scaled x)"
    unfolding ToInt32_def using r by (simp add: sint32_small)
  finally show ?thesis .
qed

lemma sample16_range: "- 32768 \<le> sample16 x \<and> sample16 x \<le> 32767"
  unfolding sample16_eq using scaled_range [of x] trunc_range by blast

lemma sint16_sample16: "sint (word_of_int (sample16 x) :: 16 word) = sample16 x"
  using sample16_range [of x] by (simp add: sint16_small)


lemma quantization_error:
  assumes "- 1 \<le> x" "x \<le> 1"
  shows "\<bar>real_of_int (sample16 x) / 32768 - x\<bar> < 2 / 32768"
proof -
  have c: "max (- 1) (min 1 x) = x" using assms by simp
  have "\<bar>real_of_int (sample16 x) - 32768 * x\<bar> < 2"
  proof (cases "x < - 1 / 2")
    case True
    then have "sample16 x = \<lceil>x * 32768\<rceil>"
      unfolding sample16_eq scaled_def Let_def c trunc_def using assms by simp
    then show ?thesis by linarith
  next
    case False
    show ?thesis
    proof (cases "x < 0")
      case True
      then have "x * 32767 < 0" by simp
      then have "sample16 x = \<lceil>x * 32767\<rceil>"
        unfolding sample16_eq scaled_def Let_def c trunc_def using False by simp
      then show ?thesis using False True by linarith
    next
      case nn: False
      then have "\<not> x * 32767 < 0" by (simp add: mult_less_0_iff)
      then have "sample16 x = \<lfloor>x * 32767\<rfloor>"
        unfolding sample16_eq scaled_def Let_def c trunc_def using False by simp
      then show ?thesis using nn assms by linarith
    qed
  qed
  then have "\<bar>(real_of_int (sample16 x) - 32768 * x) / 32768\<bar> < 2 / 32768"
    by (simp add: abs_divide)
  moreover have "(real_of_int (sample16 x) - 32768 * x) / 32768 = real_of_int (sample16 x) / 32768 - x"
    by (simp add: diff_divide_distrib)
  ultimately show ?thesis by simp
qed


lemma unat_byte0: "unat (ucast (w :: 'a::len word) :: byte) = unat w mod 256"
  by (simp add: unsigned_ucast_eq take_bit_eq_mod)

lemma unat_byteN: "unat (ucast (drop_bit k (w :: 'a::len word)) :: byte) = (unat w div 2 ^ k) mod 256"
proof -
  have "unat (drop_bit k w) = unat w div 2 ^ k"
    unfolding unat_drop_bit_eq by (rule drop_bit_eq_div)
  then show ?thesis by (simp only: unat_byte0)
qed

lemma base256_4:
  fixes n :: nat
  assumes "n < 2 ^ 32"
  shows "n mod 256 + 256 * (n div 256 mod 256) + 65536 * (n div 65536 mod 256)
           + 16777216 * (n div 16777216 mod 256) = n"
proof -
  define q1 where "q1 = n div 256"
  define q2 where "q2 = q1 div 256"
  define q3 where "q3 = q2 div 256"
  have e2: "n div 65536 = q2" unfolding q2_def q1_def by (simp add: div_mult2_eq [symmetric])
  have e3: "n div 16777216 = q3" unfolding q3_def q2_def q1_def by (simp add: div_mult2_eq [symmetric])
  have "q3 < 256" unfolding e3 [symmetric] using assms by simp
  then have m3: "q3 mod 256 = q3" by simp
  have a: "n = n mod 256 + 256 * q1" unfolding q1_def by simp
  have b: "q1 = q1 mod 256 + 256 * q2" unfolding q2_def by simp
  have c: "q2 = q2 mod 256 + 256 * q3" unfolding q3_def by simp
  have "n mod 256 + 256 * (q1 mod 256) + 65536 * (q2 mod 256) + 16777216 * q3 = n"
    using a b c by linarith
  then show ?thesis unfolding e2 e3 m3 q1_def [symmetric] .
qed

lemma base256_2:
  fixes n :: nat
  assumes "n < 2 ^ 16"
  shows "n mod 256 + 256 * (n div 256 mod 256) = n"
proof -
  have "n div 256 < 256" using assms by simp
  then show ?thesis by simp
qed

lemma uint32_bytes32:
  "uint32_le (pre @ bytes32 w @ post) (length pre) = unat w"
proof -
  have "unat w < 2 ^ 32" using unsigned_less [of w] by simp
  from base256_4 [OF this] show ?thesis
    unfolding uint32_le_def bytes32_def
    using unat_byteN [of 8 w] unat_byteN [of 16 w] unat_byteN [of 24 w]
    by (simp add: nth_append unat_byte0)
qed

lemma uint16_bytes16:
  "uint16_le (pre @ bytes16 w @ post) (length pre) = unat w"
proof -
  have "unat w < 2 ^ 16" using unsigned_less [of w] by simp
  from base256_2 [OF this] show ?thesis
    unfolding uint16_le_def bytes16_def
    using unat_byteN [of 8 w]
    by (simp add: nth_append unat_byte0)
qed


lemma length_bytes16 [simp]: "length (bytes16 w) = 2" by (simp add: bytes16_def)
lemma length_bytes32 [simp]: "length (bytes32 w) = 4" by (simp add: bytes32_def)

lemma view_write_prefix:
  assumes "n = length pre" "n + length bs \<le> length view"
  shows "view_write (pre @ drop n view) n bs = Inr ((pre @ bs) @ drop (n + length bs) view)"
  using assms by (simp add: view_write_def add.commute)

lemma write_header_eq:
  assumes len: "44 \<le> length view"
  shows "write_header b ch len (view, 0) =
           Inr (header_bytes (sampleRate b) ch len @ drop 44 view, 44)"
proof -
  define st where "st pre = (pre @ drop (length pre) view, length pre)" for pre
  have init: "(view, 0) = st []" by (simp add: st_def)
  have s32: "setUint32 d (st pre) = Inr (st (pre @ bytes32 (word_of_nat d)))"
    if "length pre + 4 \<le> length view" for d pre
    unfolding st_def setUint32_def view_setUint32_def
    using view_write_prefix [of "length pre" pre "bytes32 (word_of_nat d)" view] that by simp
  have s16: "setUint16 d (st pre) = Inr (st (pre @ bytes16 (word_of_nat d)))"
    if "length pre + 2 \<le> length view" for d pre
    unfolding st_def setUint16_def view_setUint16_def
    using view_write_prefix [of "length pre" pre "bytes16 (word_of_nat d)" view] that by simp
  have sn: "snd (st pre) = length pre" for pre by (simp add: st_def)
  have "write_header b ch len (view, 0) = Inr (st (header_bytes (sampleRate b) ch len))"
    unfolding write_header_def init header_bytes_def using len
    by (simp add: s32 s16 sn)
  moreover have "length (header_bytes (sampleRate b) ch len) = 44"
    by (simp add: header_bytes_def)
  ultimately show ?thesis by (simp add: st_def)
qed


lemma run_append:
  "run (fs @ gs) s = (case run fs s of Inl e \<Rightarrow> Inl e | Inr s' \<Rightarrow> run gs s')"
  by (induction fs arbitrary: s) (auto split: sum.splits)

lemma view_write_keeps:
  assumes "p + length bs \<le> length view" "44 \<le> p"
  shows "\<exists>v. view_write view p bs = Inr v \<and> length v = length view \<and> take 44 v = take 44 view"
  using assms by (simp add: view_write_def)

lemma write_sample_keeps:
  assumes "44 + offset + 2 \<le> length view"
  shows "\<exists>v. write_sample channels pos i (view, offset) = Inr (v, offset + 2)
           \<and> length v = length view \<and> take 44 v = take 44 view"
proof -
  have "44 + offset + length (bytes16 (word_of_int (sample16_at channels i pos))) \<le> length view"
    using assms by simp
  from view_write_keeps [OF this] show ?thesis
    by (auto simp: write_sample_def view_setInt16_def)
qed

lemma run_frame:
  assumes "44 + offset + 2 * n \<le> length view"
  shows "\<exists>v. run (map (write_sample channels pos) [0..<n]) (view, offset) = Inr (v, offset + 2 * n)
           \<and> length v = length view \<and> take 44 v = take 44 view"
  using assms
proof (induction n)
  case 0 then show ?case by simp
next
  case (Suc n)
  then obtain v where v: "run (map (write_sample channels pos) [0..<n]) (view, offset) = Inr (v, offset + 2 * n)"
    "length v = length view" "take 44 v = take 44 view" by auto
  have "44 + (offset + 2 * n) + 2 \<le> length v" using Suc.prems v(2) by simp
  from write_sample_keeps [OF this, of channels pos n]
  obtain v' where v': "write_sample channels pos n (v, offset + 2 * n) = Inr (v', offset + 2 * n + 2)"
    "length v' = length v" "take 44 v' = take 44 v" by auto
  show ?case using v v' by (simp add: run_append)
qed

lemma write_data_keeps:
  assumes "44 + offset + 2 * ch * (bufLength b - pos) \<le> length view"
  shows "\<exists>v. write_data b channels ch (view, offset) pos = Inr v
           \<and> length v = length view \<and> take 44 v = take 44 view"
  using assms
proof (induction "bufLength b - pos" arbitrary: view offset pos)
  case 0
  then show ?case by (subst write_data.simps) simp
next
  case (Suc k)
  then have lt: "pos < bufLength b" and k: "k = bufLength b - (pos + 1)" by simp_all
  have d: "bufLength b - pos = Suc (bufLength b - (pos + 1))" using lt by simp
  have "44 + offset + 2 * ch \<le> length view" using Suc.prems unfolding d by simp
  from run_frame [OF this, of channels pos]
  obtain v where v: "run (map (write_sample channels pos) [0..<ch]) (view, offset) = Inr (v, offset + 2 * ch)"
    "length v = length view" "take 44 v = take 44 view" by auto
  have "44 + (offset + 2 * ch) + 2 * ch * (bufLength b - (pos + 1)) \<le> length v"
    using Suc.prems unfolding d v(2) by simp
  from Suc.hyps(1) [OF k this]
  obtain v' where v': "write_data b channels ch (v, offset + 2 * ch) (pos + 1) = Inr v'"
    "length v' = length v" "take 44 v' = take 44 v" by auto
  show ?case using lt v v' by (subst write_data.simps) simp
qed

lemma run_push_channel:
  assumes "n \<le> numberOfChannels b" "n \<le> length (channelData b)"
  shows "run (map (push_channel b) [0..<n]) acc = Inr (acc @ take n (channelData b))"
  using assms
proof (induction n)
  case 0 then show ?case by simp
next
  case (Suc n)
  then show ?case
    by (simp add: run_append push_channel_def getChannelData_def take_Suc_conv_app_nth)
qed

lemma audioBufferToWav_header:
  assumes "length (channelData b) = numberOfChannels b"
  shows "\<exists>v. audioBufferToWav b = Inr v
           \<and> length v = bufLength b * numberOfChannels b * 2 + 44
           \<and> take 44 v = header_bytes (sampleRate b) (numberOfChannels b)
                             (bufLength b * numberOfChannels b * 2 + 44)"
proof -
  define len where "len = bufLength b * numberOfChannels b * 2 + 44"
  define hdr where "hdr = header_bytes (sampleRate b) (numberOfChannels b) len"
  define view where "view = hdr @ drop 44 (replicate len (0::byte))"
  have lh: "length hdr = 44" by (simp add: hdr_def header_bytes_def)
  have lv: "length view = len" by (simp add: view_def lh len_def)
  have h: "write_header b (numberOfChannels b) len (replicate len 0, 0) = Inr (view, 44)"
    unfolding view_def hdr_def by (rule write_header_eq) (simp add: len_def)
  have c: "run (map (push_channel b) [0..<numberOfChannels b]) [] = Inr (channelData b)"
    using run_push_channel [of "numberOfChannels b" b "[]"] assms by simp
  have "44 + 0 + 2 * numberOfChannels b * (bufLength b - 44) \<le> length view"
    unfolding lv len_def by (simp add: diff_mult_distrib2 mult.commute)
  from write_data_keeps [OF this, of "channelData b"]
  obtain v where v: "write_data b (channelData b) (numberOfChannels b) (view, 0) 44 = Inr v"
    "length v = length view" "take 44 v = take 44 view" by auto
  have "audioBufferToWav b = Inr v"
    unfolding audioBufferToWav_def Let_def len_def [symmetric] h using c v(1) by simp
  moreover have "take 44 view = hdr" by (simp add: view_def lh)
  ultimately show ?thesis using v lv unfolding len_def [symmetric] hdr_def by simp
qed


lemma uint32_at:
  "p = length pre \<Longrightarrow> uint32_le (pre @ bytes32 w @ post) p = unat w"
  by (simp add: uint32_bytes32)

lemma uint16_at:
  "p = length pre \<Longrightarrow> uint16_le (pre @ bytes16 w @ post) p = unat w"
  by (simp add: uint16_bytes16)

lemma header_fields:
  assumes v: "v = header_bytes r c l @ rest"
  shows "chunk_id v 0 = [0x52, 0x49, 0x46, 0x46]"
    and "chunk_id v 8 = [0x57, 0x41, 0x56, 0x45]"
    and "chunk_id v 12 = [0x66, 0x6d, 0x74, 0x20]"
    and "chunk_id v 36 = [0x64, 0x61, 0x74, 0x61]"
    and "uint16_le v 20 = 1"
    and "uint16_le v 34 = 16"
    and "uint16_le v 22 = c mod 2 ^ 16"
    and "uint32_le v 24 = r mod 2 ^ 32"
    and "uint32_le v 40 = (l - 44) mod 2 ^ 32"
proof -
  have m: "bytes32 (word_of_nat 0x46464952) = [0x52, 0x49, 0x46, 0x46]"
    "bytes32 (word_of_nat 0x45564157) = [0x57, 0x41, 0x56, 0x45]"
    "bytes32 (word_of_nat 0x20746d66) = [0x66, 0x6d, 0x74, 0x20]"
    "bytes32 (word_of_nat 0x61746164) = [0x64, 0x61, 0x74, 0x61]"
    by (simp_all add: bytes32_def)
  show "chunk_id v 0 = [0x52, 0x49, 0x46, 0x46]"
    unfolding v header_bytes_def chunk_id_def m by simp
  show "chunk_id v 8 = [0x57, 0x41, 0x56, 0x45]"
    unfolding v header_bytes_def chunk_id_def m by simp
  show "chunk_id v 12 = [0x66, 0x6d, 0x74, 0x20]"
    unfolding v header_bytes_def chunk_id_def m by simp
  show "chunk_id v 36 = [0x64, 0x61, 0x74, 0x61]"
    unfolding v header_bytes_def chunk_id_def m by simp
  show "uint16_le v 20 = 1"
    using uint16_at [of 20 "bytes32 (word_of_nat 0x46464952) @ bytes32 (word_of_nat (l - 8))
     @ bytes32 (word_of_nat 0x45564157) @ bytes32 (word_of_nat 0x20746d66)
     @ bytes32 (word_of_nat 16)" "word_of_nat 1"]
    unfolding v header_bytes_def by simp
  show "uint16_le v 34 = 16"
    using uint16_at [of 34 "bytes32 (word_of_nat 0x46464952) @ bytes32 (word_of_nat (l - 8))
     @ bytes32 (word_of_nat 0x45564157) @ bytes32 (word_of_nat 0x20746d66)
     @ bytes32 (word_of_nat 16) @ bytes16 (word_of_nat 1) @ bytes16 (word_of_nat c)
     @ bytes32 (word_of_nat r) @ bytes32 (word_of_nat (r * 2 * c))
     @ bytes16 (word_of_nat (c * 2))" "word_of_nat 16"]
    unfolding v header_bytes_def by simp
  show "uint16_le v 22 = c mod 2 ^ 16"
    using uint16_at [of 22 "bytes32 (word_of_nat 0x46464952) @ bytes32 (word_of_nat (l - 8))
     @ bytes32 (word_of_nat 0x45564157) @ bytes32 (word_of_nat 0x20746d66)
     @ bytes32 (word_of_nat 16) @ bytes16 (word_of_nat 1)" "word_of_nat c"]
    unfolding v header_bytes_def by (simp add: unat_of_nat)
  show "uint32_le v 24 = r mod 2 ^ 32"
    using uint32_at [of 24 "bytes32 (word_of_nat 0x46464952) @ bytes32 (word_of_nat (l - 8))
     @ bytes32 (word_of_nat 0x45564157) @ bytes32 (word_of_nat 0x20746d66)
     @ bytes32 (word_of_nat 16) @ bytes16 (word_of_nat 1) @ bytes16 (word_of_nat c)" "word_of_nat r"]
    unfolding v header_bytes_def by (simp add: unat_of_nat)
  show "uint32_le v 40 = (l - 44) mod 2 ^ 32"
    using uint32_at [of 40 "bytes32 (word_of_nat 0x46464952) @ bytes32 (word_of_nat (l - 8))
     @ bytes32 (word_of_nat 0x45564157) @ bytes32 (word_of_nat 0x20746d66)
     @ bytes32 (word_of_nat 16) @ bytes16 (word_of_nat 1) @ bytes16 (word_of_nat c)
     @ bytes32 (word_of_nat r) @ bytes32 (word_of_nat (r * 2 * c))
     @ bytes16 (word_of_nat (c * 2)) @ bytes16 (word_of_nat 16)
     @ bytes32 (word_of_nat 0x61746164)" "word_of_nat (l - 44)" rest]
    unfolding v header_bytes_def by (simp add: unat_of_nat)
qed


lemma view_write_nth:
  assumes "p + length bs \<le> length view" "k < length bs"
  shows "\<exists>v. view_write view p bs = Inr v \<and> length v = length view \<and> v ! (p + k) = bs ! k"
  using assms by (simp add: view_write_def nth_append)

text \<open>
  Claim C1, as amended. Each run of the loop body (lines 82 to 86) on a sample of the
  buffer clamps the sample to \<open>[-1, 1]\<close>, multiplies the clamped value by 32768 when it
  is below \<open>-0.5\<close> (the test of line 84 is \<open>0.5 + sample < 0\<close>) and by 32767 otherwise,
  truncates toward zero, and stores the result, which lies in \<open>[-32768, 32767]\<close>,
  unchanged as a 16-bit little-endian integer at the current offset of the data chunk.
  Which samples the loop visits is not part of the statement.
\<close>

theorem write_sample_quantizes:
  assumes "i < length channels" and "pos < length (channels ! i)"
    and "44 + offset + 2 \<le> length view"
  shows "\<exists>view'. write_sample channels pos i (view, offset) = Inr (view', offset + 2)
           \<and> length view' = length view
           \<and> sint (int16_le (view' ! (44 + offset)) (view' ! (44 + offset + 1)))
               = trunc (let c = max (- 1) (min 1 (channels ! i ! pos))
                        in if c < - 1 / 2 then c * 32768 else c * 32767)
           \<and> - 32768 \<le> sint (int16_le (view' ! (44 + offset)) (view' ! (44 + offset + 1)))
           \<and> sint (int16_le (view' ! (44 + offset)) (view' ! (44 + offset + 1))) \<le> 32767"
proof -
  define x where "x = channels ! i ! pos"
  define w :: "16 word" where "w = word_of_int (sample16 x)"
  have at: "sample16_at channels i pos = sample16 x"
    using assms(2) by (simp add: sample16_at_def x_def)
  have fit: "44 + offset + length (bytes16 w) \<le> length view" using assms(3) by simp
  obtain v where v: "view_write view (44 + offset) (bytes16 w) = Inr v" "length v = length view"
    using view_write_keeps [OF fit] by auto
  have n0: "v ! (44 + offset) = ucast w"
    using view_write_nth [OF fit, of 0] v(1) by (simp add: bytes16_def)
  have n1: "v ! (44 + offset + 1) = ucast (drop_bit 8 w)"
    using view_write_nth [OF fit, of 1] v(1) by (simp add: bytes16_def)
  have rd: "sint (int16_le (v ! (44 + offset)) (v ! (44 + offset + 1))) = sample16 x"
    unfolding n0 n1 int16_le_bytes16 w_def by (rule sint16_sample16)
  have ws: "write_sample channels pos i (view, offset) = Inr (v, offset + 2)"
    unfolding write_sample_def view_setInt16_def at using v(1) by (simp add: w_def)
  have q: "sample16 x = trunc (let c = max (- 1) (min 1 x)
                        in if c < - 1 / 2 then c * 32768 else c * 32767)"
    unfolding sample16_eq scaled_def ..
  show ?thesis
    using ws v(2) rd q sample16_range [of x] unfolding x_def by auto
qed

text \<open>The hypotheses of C1 hold for the sample \<open>-1/4\<close>, stored as \<open>-8191\<close>.\<close>

theorem write_sample_quantizes_witness:
  "(0::nat) < length [[- 1 / 4 :: real]] \<and> (0::nat) < length ([[- 1 / 4 :: real]] ! 0)
   \<and> 44 + 0 + 2 \<le> length (replicate 46 (0::byte))
   \<and> (\<exists>view'. write_sample [[- 1 / 4]] 0 0 (replicate 46 0, 0) = Inr (view', 0 + 2)
         \<and> sint (int16_le (view' ! (44 + 0)) (view' ! (44 + 0 + 1))) = - 8191)"
proof -
  have a: "(0::nat) < length [[- 1 / 4 :: real]]" by simp
  have b: "(0::nat) < length ([[- 1 / 4 :: real]] ! 0)" by simp
  have c: "44 + 0 + 2 \<le> length (replicate 46 (0::byte))" by simp
  have t: "trunc (let c = max (- 1) (min 1 ([[- 1 / 4 :: real]] ! 0 ! 0))
                        in if c < - 1 / 2 then c * 32768 else c * 32767) = - 8191"
    by (simp add: trunc_def)
  from write_sample_quantizes [OF a b c] show ?thesis
    unfolding t using a b c by blast
qed

lemma length_header_bytes [simp]: "length (header_bytes r c l) = 44"
  by (simp add: header_bytes_def)

text \<open>
  The encoder on a mono buffer of 45 equal samples. The loop of lines 79 to 89 tests and
  advances \<open>pos\<close>, which the header stores have left at 44: of the 45 frames it visits
  the last one only, and stores it at the start of the data chunk; the rest of the chunk
  keeps the zeros of the new ArrayBuffer.
\<close>

lemma audioBufferToWav_constant:
  "audioBufferToWav (constant_buffer x) =
     Inr (header_bytes 24000 1 134 @ bytes16 (word_of_int (sample16 x)) @ replicate 88 0)"
proof -
  have h: "write_header (constant_buffer x) 1 134 (replicate 134 0, 0)
      = Inr (header_bytes 24000 1 134 @ replicate 90 0, 44)"
    using write_header_eq [of "replicate 134 0" "constant_buffer x" 1 134]
    by (simp add: constant_buffer_def)
  have c: "run (map (push_channel (constant_buffer x)) [0..<1]) [] = Inr [replicate 45 x]"
    by (simp add: push_channel_def getChannelData_def constant_buffer_def)
  have s: "sample16_at [replicate 45 x] 0 44 = sample16 x"
    by (simp add: sample16_at_def)
  have f: "run (map (write_sample [replicate 45 x] 44) [0..<1]) (header_bytes 24000 1 134 @ replicate 90 0, 0)
      = Inr (header_bytes 24000 1 134 @ bytes16 (word_of_int (sample16 x)) @ replicate 88 0, 2)"
    by (simp add: write_sample_def view_setInt16_def view_write_def s)
  have bl: "bufLength (constant_buffer x) = 45" "numberOfChannels (constant_buffer x) = 1"
    by (simp_all add: constant_buffer_def)
  have w: "write_data (constant_buffer x) [replicate 45 x] 1 (header_bytes 24000 1 134 @ replicate 90 0, 0) 44
      = Inr (header_bytes 24000 1 134 @ bytes16 (word_of_int (sample16 x)) @ replicate 88 0)"
    apply (subst write_data.simps)
    apply (simp only: bl f)
    apply (subst write_data.simps)
    apply (simp add: bl)
    done
  show ?thesis
    unfolding audioBufferToWav_def Let_def bl
    using h c w by simp
qed


text \<open>
  Claim C1 as stated fails on a mono buffer of 45 samples \<open>-1/4\<close>: the rule of the claim
  gives \<open>-8192\<close> for every sample (negative, so multiplied by 32768), and the first
  integer of the data chunk is \<open>-8191\<close>.
\<close>

theorem quantization_counterexample:
  "\<not> isl (audioBufferToWav (constant_buffer (- 1 / 4)))
   \<and> sint (int16_le (projr (audioBufferToWav (constant_buffer (- 1 / 4))) ! 44)
                     (projr (audioBufferToWav (constant_buffer (- 1 / 4))) ! 45)) = - 8191
   \<and> trunc (max (- 1) (min 1 (- 1 / 4)) * 32768) = - 8192"
proof -
  have q: "sample16 (- 1 / 4) = - 8191"
    by (simp add: sample16_def ToInt32_def trunc_def)
  have t: "trunc (max (- 1) (min 1 (- 1 / 4)) * 32768) = - 8192"
    by (simp add: trunc_def)
  show ?thesis
    unfolding audioBufferToWav_constant q using t
    by (simp add: nth_append bytes16_def int16_le_def)
qed

lemma wav_decode_header:
  assumes v: "take 44 v = header_bytes r c l" and lv: "length v = l"
    and l: "l = n * c * 2 + 44" and c: "0 < c" "c < 2 ^ 16" and r: "r < 2 ^ 32"
    and d: "n * c * 2 < 2 ^ 32"
  shows "\<exists>b'. wav_decode v = Inr b' \<and> numberOfChannels b' = c \<and> bufLength b' = n
           \<and> sampleRate b' = r"
proof -
  have "v = take 44 v @ drop 44 v" by simp
  then have split: "v = header_bytes r c l @ drop 44 v" unfolding v .
  note f = header_fields [OF split]
  have cm: "c mod 2 ^ 16 = c" using c by simp
  have rm: "r mod 2 ^ 32 = r" using r by simp
  have dm: "(l - 44) mod 2 ^ 32 = n * c * 2" using d l by simp
  have ok: "wav_header_ok v"
    unfolding wav_header_ok_def f cm rm dm using c lv l by simp
  have fr: "n * c * 2 div (2 * c) = n" using c by simp
  show ?thesis
    unfolding wav_decode_def Let_def f cm rm dm fr using ok by simp
qed

text \<open>
  Claim C2, as amended. For every valid Sample Buffer whose channel count, sample rate
  and data size fit the header fields (16, 32 and 32 bits), the encoder returns a
  container from which the decoder reads the channel count, the frame count and the
  sample rate exactly; and for every sample of the buffer, the encoder's quantization
  followed by the division by 32768 is within less than \<open>2/32768\<close> of the sample (not
  \<open>1/32768\<close>). Where a sample is found in the container is not part of the statement.
\<close>

theorem wav_roundtrip:
  assumes "valid_buffer b" and "numberOfChannels b < 2 ^ 16" and "sampleRate b < 2 ^ 32"
    and "bufLength b * numberOfChannels b * 2 < 2 ^ 32"
  shows "\<exists>v b'. audioBufferToWav b = Inr v \<and> wav_decode v = Inr b'
           \<and> numberOfChannels b' = numberOfChannels b
           \<and> bufLength b' = bufLength b
           \<and> sampleRate b' = sampleRate b
           \<and> (\<forall>cd \<in> set (channelData b). \<forall>x \<in> set cd.
                 \<bar>real_of_int (sint (word_of_int (sample16 x) :: 16 word)) / 32768 - x\<bar>
                   < 2 / 32768)"
proof -
  have vb: "0 < numberOfChannels b" "length (channelData b) = numberOfChannels b"
    "\<forall>cd \<in> set (channelData b). \<forall>x \<in> set cd. - 1 \<le> x \<and> x \<le> 1"
    using assms(1) by (auto simp: valid_buffer_def list_all_iff)
  obtain v where v: "audioBufferToWav b = Inr v"
    "length v = bufLength b * numberOfChannels b * 2 + 44"
    "take 44 v = header_bytes (sampleRate b) (numberOfChannels b)
                   (bufLength b * numberOfChannels b * 2 + 44)"
    using audioBufferToWav_header [OF vb(2)] by auto
  obtain b' where b': "wav_decode v = Inr b'" "numberOfChannels b' = numberOfChannels b"
    "bufLength b' = bufLength b" "sampleRate b' = sampleRate b"
    using wav_decode_header [OF v(3) v(2) refl vb(1) assms(2) assms(3) assms(4)] by auto
  have "\<bar>real_of_int (sint (word_of_int (sample16 x) :: 16 word)) / 32768 - x\<bar> < 2 / 32768"
    if "cd \<in> set (channelData b)" "x \<in> set cd" for cd x
  proof -
    have "- 1 \<le> x" "x \<le> 1" using vb(3) that by auto
    then show ?thesis unfolding sint16_sample16 by (rule quantization_error)
  qed
  then show ?thesis using v(1) b' by blast
qed

text \<open>The hypotheses of C2 hold for a mono buffer of 45 samples \<open>1/2\<close> at 24000 Hz.\<close>

theorem wav_roundtrip_witness:
  "valid_buffer (constant_buffer (1 / 2))
   \<and> (\<exists>v b'. audioBufferToWav (constant_buffer (1 / 2)) = Inr v \<and> wav_decode v = Inr b'
          \<and> numberOfChannels b' = 1 \<and> bufLength b' = 45 \<and> sampleRate b' = 24000
          \<and> \<bar>real_of_int (sint (word_of_int (sample16 (1 / 2)) :: 16 word)) / 32768 - 1 / 2\<bar>
               < 2 / 32768)"
proof -
  have a: "valid_buffer (constant_buffer (1 / 2))"
    by (simp add: valid_buffer_def constant_buffer_def list_all_iff)
  have f: "numberOfChannels (constant_buffer (1 / 2)) = 1" "bufLength (constant_buffer (1 / 2)) = 45"
    "sampleRate (constant_buffer (1 / 2)) = 24000"
    "channelData (constant_buffer (1 / 2)) = [replicate 45 (1 / 2)]"
    by (simp_all add: constant_buffer_def)
  have b: "numberOfChannels (constant_buffer (1 / 2)) < 2 ^ 16" unfolding f by simp
  have c: "sampleRate (constant_buffer (1 / 2)) < 2 ^ 32" unfolding f by simp
  have d: "bufLength (constant_buffer (1 / 2)) * numberOfChannels (constant_buffer (1 / 2)) * 2 < 2 ^ 32"
    unfolding f by simp
  from wav_roundtrip [OF a b c d] show ?thesis
    unfolding f using a by auto
qed

text \<open>
  Claim C2 as stated fails on a valid mono buffer of 45 samples \<open>65535/65536\<close>: frame 0
  decodes to \<open>32766/32768\<close>, which is \<open>1.5/32768\<close> away from the sample (every sample of
  the buffer has this value, so the distance is that of the quantization alone).
\<close>

theorem wav_roundtrip_counterexample:
  "valid_buffer (constant_buffer (65535 / 65536))
   \<and> \<not> isl (audioBufferToWav (constant_buffer (65535 / 65536)))
   \<and> \<not> isl (wav_decode (projr (audioBufferToWav (constant_buffer (65535 / 65536)))))
   \<and> channelData (constant_buffer (65535 / 65536)) ! 0 ! 0 = 65535 / 65536
   \<and> channelData (projr (wav_decode (projr (audioBufferToWav (constant_buffer (65535 / 65536))))))
        ! 0 ! 0 = 32766 / 32768
   \<and> \<not> \<bar>32766 / 32768 - 65535 / 65536\<bar> \<le> (1 / 32768 :: real)"
proof -
  define v where "v = header_bytes 24000 1 134 @ bytes16 (word_of_int (sample16 (65535 / 65536))) @ replicate 88 0"
  have a: "valid_buffer (constant_buffer (65535 / 65536))"
    by (simp add: valid_buffer_def constant_buffer_def list_all_iff)
  have e: "audioBufferToWav (constant_buffer (65535 / 65536)) = Inr v"
    unfolding v_def by (rule audioBufferToWav_constant)
  have q: "sample16 (65535 / 65536) = 32766"
    by (simp add: sample16_def ToInt32_def trunc_def)
  note f = header_fields [OF v_def]
  have ok: "wav_header_ok v"
    unfolding wav_header_ok_def f by (simp add: v_def)
  have s0: "Int16Array (take 90 (drop 44 v)) ! 0 = 32766"
    unfolding v_def q by (simp add: Int16Array_def bytes16_def int16_le_def nth_append)
  have dec: "wav_decode v = Inr \<lparr> numberOfChannels = 1, bufLength = 45, sampleRate = 24000,
      channelData = map (\<lambda>c. map (\<lambda>f. real_of_int (sint (Int16Array (take 90 (drop 44 v)) ! (f * 1 + c))) / 32768)
                                [0..<45]) [0..<1] \<rparr>"
    unfolding wav_decode_def Let_def f using ok by simp
  have c0: "channelData (constant_buffer (65535 / 65536)) ! 0 ! 0 = 65535 / 65536"
    by (simp add: constant_buffer_def)
  show ?thesis
    unfolding e sum.sel dec using a c0 s0 by simp
qed

section \<open>Properties of the playback controller\<close>


lemma buffer_duration_nonneg: "0 \<le> buffer_duration b"
  by (simp add: buffer_duration_def)

lemma played_nonneg:
  fixes now start sp p :: real
  assumes "start \<le> now" "1 / 2 \<le> sp" "0 \<le> p"
  shows "0 \<le> p + (now - start) * sp"
proof -
  have "0 \<le> (now - start) * sp" using assms by (intro mult_nonneg_nonneg) simp_all
  then show ?thesis using assms(3) by simp
qed

lemma inv_playAudio:
  assumes "session_inv b s" "playAudio k s = Inr s'"
  shows "session_inv b s'"
  using assms
  by (auto simp: session_inv_def playAudio_def initAudioContext_def Let_def
      split: option.splits if_splits)

lemma inv_stopAudio: "session_inv b s \<Longrightarrow> session_inv b (stopAudio s)"
  using buffer_duration_nonneg [of b] by (auto simp: session_inv_def stopAudio_def split: option.splits)

lemma inv_pauseAudio:
  assumes "session_inv b s" "pauseAudio s = Inr s'"
  shows "session_inv b s'"
proof (cases "sourceNodeRef s")
  case None
  then show ?thesis using assms by (simp add: pauseAudio_def)
next
  case (Some src)
  show ?thesis
  proof (cases "audioContextRef s")
    case None
    then show ?thesis using assms Some by (simp add: pauseAudio_def)
  next
    case (Some now)
    have i: "audioBuffer s = Some b" "startTimeRef s \<le> now" "1 / 2 \<le> speed s" "0 \<le> pausedTimeRef s"
      using assms(1) Some by (simp_all add: session_inv_def)
    have nn: "0 \<le> pausedTimeRef s + (now - startTimeRef s) * speed s"
      using i(2-4) by (rule played_nonneg)
    show ?thesis
      using assms Some \<open>sourceNodeRef s = Some src\<close> nn buffer_duration_nonneg [of b]
      by (auto simp: session_inv_def pauseAudio_def Let_def split: if_splits)
  qed
qed

lemma inv_advance: "session_inv b s \<Longrightarrow> 0 \<le> dt \<Longrightarrow> session_inv b (advance dt s)"
  by (auto simp: session_inv_def advance_def split: option.splits)

lemma inv_updateProgress:
  assumes "session_inv b s"
  shows "session_inv b (updateProgress s)"
proof (cases "isPlaying s")
  case False
  then show ?thesis using assms by (simp add: updateProgress_def)
next
  case True
  show ?thesis
  proof (cases "audioContextRef s")
    case None
    then show ?thesis using assms True by (simp add: updateProgress_def)
  next
    case (Some now)
    have i: "startTimeRef s \<le> now" "1 / 2 \<le> speed s" "0 \<le> pausedTimeRef s"
      using assms Some by (simp_all add: session_inv_def)
    have nn: "0 \<le> pausedTimeRef s + (now - startTimeRef s) * speed s"
      using i by (rule played_nonneg)
    show ?thesis
      using assms Some True nn buffer_duration_nonneg [of b]
      by (auto simp: session_inv_def updateProgress_def Let_def min_def split: if_splits)
  qed
qed

lemma inv_setSpeed:
  "session_inv b s \<Longrightarrow> 1 / 2 \<le> r \<Longrightarrow> r \<le> 2 \<Longrightarrow> session_inv b (setSpeed r s)"
  by (auto simp: session_inv_def setSpeed_def split: option.splits)

lemma inv_onended: "session_inv b s \<Longrightarrow> session_inv b (onended src s)"
  using buffer_duration_nonneg [of b] by (auto simp: session_inv_def onended_def split: option.splits)

lemma inv_mounted:
  assumes "1 / 2 \<le> sp" "sp \<le> 2" "bufferEffect autoPlay (initial (Some b) sp pt) = Inr s"
  shows "session_inv b s"
proof -
  define s1 where "s1 = (initial (Some b) sp pt)\<lparr> duration := buffer_duration b, currentTime := 0,
                         pausedTimeRef := 0 \<rparr>"
  have i1: "session_inv b s1"
    using assms(1,2) buffer_duration_nonneg [of b]
    by (simp add: s1_def session_inv_def initial_def)
  show ?thesis
  proof (cases autoPlay)
    case True
    then have "playAudio False s1 = Inr s"
      using assms(3) by (simp add: bufferEffect_def s1_def initial_def)
    with i1 show ?thesis by (rule inv_playAudio)
  next
    case False
    then have "s1 = s" using assms(3) by (auto simp: bufferEffect_def s1_def initial_def)
    with i1 show ?thesis by simp
  qed
qed

lemma reachable_inv: "reachable b s \<Longrightarrow> session_inv b s"
proof (induction rule: reachable.induct)
  case (mounted sp autoPlay pt s)
  then show ?case using inv_mounted [of sp autoPlay b pt s] by simp
next
  case (play s s')
  then show ?case by (auto intro: inv_playAudio)
next
  case (pause s s')
  then show ?case by (auto intro: inv_pauseAudio)
next
  case (stop s)
  then show ?case by (simp add: inv_stopAudio)
next
  case (again s s')
  then show ?case unfolding restart_def by (auto intro: inv_playAudio inv_stopAudio)
next
  case (clock s dt)
  then show ?case by (auto intro: inv_advance)
next
  case (frame s)
  then show ?case by (simp add: inv_updateProgress)
next
  case (rate s r)
  then show ?case using inv_setSpeed [of b s r] by simp
next
  case (ended s src)
  then show ?case by (simp add: inv_onended)
qed


lemma playAudio_ok:
  assumes "audioBuffer s = Some b" "0 \<le> pausedTimeRef s"
  shows "\<exists>now src. playAudio k s =
            Inr (s\<lparr> audioContextRef := Some now, startTimeRef := now,
                     sourceNodeRef := Some src, isPlaying := True \<rparr>)"
proof (cases "audioContextRef s")
  case None
  then show ?thesis using assms
    by (auto simp: playAudio_def initAudioContext_def Let_def)
next
  case (Some a)
  then have "s\<lparr> audioContextRef := Some a \<rparr> = s" by simp
  then have "playAudio k s =
      Inr (s\<lparr> audioContextRef := Some a, startTimeRef := a,
               sourceNodeRef := Some \<lparr> src_offset = pausedTimeRef s,
                    src_playbackRate = speed s, src_detune = pitch s,
                    src_stopped = False, src_onended = k \<rparr>, isPlaying := True \<rparr>)"
    using assms Some
    by (simp add: playAudio_def initAudioContext_def Let_def)
  then show ?thesis by blast
qed

text \<open>
  Claim C6, as amended. After \<open>play\<close> on a session with a buffer, at the current rate
  and from the current cursor, followed by \<open>t\<close> seconds of wall clock, the session is
  still Playing and \<open>pause\<close> adds \<open>t * rate\<close> to the cursor and leaves Playing; when
  the sum exceeds the duration of the buffer, the cursor is reset to 0 instead. From
  cursor 0 the cursor is left at \<open>rate * t\<close> as long as this is at most the duration.
\<close>

theorem pause_after_play:
  assumes "audioBuffer s = Some b" and "0 \<le> pausedTimeRef s"
  shows "\<exists>s1 s2. playAudio k s = Inr s1 \<and> isPlaying (advance t s1)
           \<and> pauseAudio (advance t s1) = Inr s2 \<and> \<not> isPlaying s2
           \<and> pausedTimeRef s2 =
               (if pausedTimeRef s + t * speed s > buffer_duration b then 0
                else pausedTimeRef s + t * speed s)"
proof -
  obtain now src where p: "playAudio k s =
      Inr (s\<lparr> audioContextRef := Some now, startTimeRef := now,
               sourceNodeRef := Some src, isPlaying := True \<rparr>)"
    using playAudio_ok [OF assms] by blast
  define s1 where "s1 = s\<lparr> audioContextRef := Some now, startTimeRef := now,
               sourceNodeRef := Some src, isPlaying := True \<rparr>"
  have a: "isPlaying (advance t s1)" by (simp add: advance_def s1_def)
  have "\<exists>s2. pauseAudio (advance t s1) = Inr s2 \<and> \<not> isPlaying s2
           \<and> pausedTimeRef s2 =
               (if pausedTimeRef s + t * speed s > buffer_duration b then 0
                else pausedTimeRef s + t * speed s)"
    using assms(1) by (simp add: pauseAudio_def advance_def s1_def Let_def)
  then show ?thesis using p a unfolding s1_def by blast
qed

text \<open>One frame of the progress effect after \<open>play\<close> and \<open>t\<close> seconds of wall clock.\<close>

lemma progress_frame_after_play:
  assumes "audioBuffer s = Some b" and "duration s = buffer_duration b"
    and "0 \<le> pausedTimeRef s"
  shows "\<exists>s1. playAudio k s = Inr s1 \<and> isPlaying (advance t s1)
           \<and> (if pausedTimeRef s + t * speed s < buffer_duration b
               then isPlaying (updateProgress (advance t s1))
                    \<and> pausedTimeRef (updateProgress (advance t s1)) = pausedTimeRef s
                    \<and> currentTime (updateProgress (advance t s1)) = pausedTimeRef s + t * speed s
               else \<not> isPlaying (updateProgress (advance t s1))
                    \<and> pausedTimeRef (updateProgress (advance t s1)) = 0
                    \<and> currentTime (updateProgress (advance t s1)) = 0)"
proof -
  obtain now src where p: "playAudio k s =
      Inr (s\<lparr> audioContextRef := Some now, startTimeRef := now,
               sourceNodeRef := Some src, isPlaying := True \<rparr>)"
    using playAudio_ok [OF assms(1,3)] by blast
  show ?thesis
    unfolding p using assms(2)
    by (simp add: updateProgress_def advance_def Let_def min_def)
qed

text \<open>
  Claim C8. \<open>stopAudio\<close> raises nothing; applied twice it leaves the state that one
  application leaves (every field, so the state label, the cursor and the displayed
  time), and on a session that was never started it changes nothing.
\<close>

theorem stop_idempotent:
  "stopAudio (stopAudio s) = stopAudio s
   \<and> stopAudio (initial buf sp pt) = initial buf sp pt"
proof -
  have "source_stop \<circ> source_stop = source_stop"
    by (rule ext) (simp add: source_stop_def)
  then show ?thesis
    by (simp add: stopAudio_def initial_def option.map_comp)
qed

text \<open>
  Claim C7. In every state of a session on the buffer \<open>b\<close> reached from mounting by
  play, pause, stop and restart, advances of the clock by non-negative amounts, frames
  of the progress effect, changes of the rate within \<open>[0.5, 2]\<close> and \<open>onended\<close>
  events, the cursor lies in \<open>[0, duration]\<close>, and so does the displayed time.
\<close>

theorem cursor_in_range:
  assumes "reachable b s"
  shows "0 \<le> pausedTimeRef s \<and> pausedTimeRef s \<le> buffer_duration b
         \<and> 0 \<le> currentTime s \<and> currentTime s \<le> buffer_duration b"
  using reachable_inv [OF assms] by (simp add: session_inv_def)


lemma duration_two_seconds: "buffer_duration two_seconds = 2"
  by (simp add: buffer_duration_def two_seconds_def)

lemma duration_quarter_second: "buffer_duration quarter_second = 1 / 4"
  by (simp add: buffer_duration_def quarter_second_def)

lemma bufferEffect_stopped:
  "bufferEffect False (initial (Some b) sp pt) = Inr (stopped_session b sp pt)"
  by (simp add: bufferEffect_def stopped_session_def initial_def)

lemma playAudio_stopped:
  "playAudio k (stopped_session b sp pt) =
     Inr \<lparr> audioBuffer = Some b, speed = sp, pitch = pt,
           isPlaying = True, currentTime = 0, duration = buffer_duration b,
           audioContextRef = Some 0,
           sourceNodeRef = Some \<lparr> src_offset = 0, src_playbackRate = sp, src_detune = pt,
                                   src_stopped = False, src_onended = k \<rparr>,
           startTimeRef = 0, pausedTimeRef = 0 \<rparr>"
  by (simp add: playAudio_def stopped_session_def initial_def initAudioContext_def)

text \<open>
  The hypotheses of C6 hold on a two-second buffer; these are scenarios C and D of the
  specification: 500 ms at rate 1 leave the cursor at 0.5 s, 500 ms at rate 2 at 1 s.
\<close>

theorem pause_after_play_witness:
  "audioBuffer (stopped_session two_seconds 1 0) = Some two_seconds
   \<and> 0 \<le> pausedTimeRef (stopped_session two_seconds 1 0)
   \<and> (\<exists>s1 s2. playAudio False (stopped_session two_seconds 1 0) = Inr s1
          \<and> isPlaying (advance (1 / 2) s1)
          \<and> pauseAudio (advance (1 / 2) s1) = Inr s2 \<and> \<not> isPlaying s2
          \<and> pausedTimeRef s2 = 1 / 2)
   \<and> (\<exists>s1 s2. playAudio False (stopped_session two_seconds 2 0) = Inr s1
          \<and> isPlaying (advance (1 / 2) s1)
          \<and> pauseAudio (advance (1 / 2) s1) = Inr s2 \<and> \<not> isPlaying s2
          \<and> pausedTimeRef s2 = 1)"
proof -
  have a: "audioBuffer (stopped_session two_seconds sp 0) = Some two_seconds" for sp
    by (simp add: stopped_session_def initial_def)
  have b: "0 \<le> pausedTimeRef (stopped_session two_seconds sp 0)" for sp
    by (simp add: stopped_session_def initial_def)
  have c: "pausedTimeRef (stopped_session two_seconds sp 0) = 0"
    "speed (stopped_session two_seconds sp 0) = sp" for sp
    by (simp_all add: stopped_session_def initial_def)
  from pause_after_play [where s = "stopped_session two_seconds 1 0" and b = two_seconds
        and k = False and t = "1 / 2", OF a b]
    pause_after_play [where s = "stopped_session two_seconds 2 0" and b = two_seconds
        and k = False and t = "1 / 2", OF a b]
  show ?thesis
    unfolding c duration_two_seconds using a b by simp
qed

text \<open>
  Claim C6 as stated fails on a buffer of a quarter second: after \<open>play\<close> at rate 1
  from cursor 0 and 500 ms of wall clock, with the session still Playing, \<open>pause\<close>
  leaves the cursor at 0, not at 0.5 s.
\<close>

theorem pause_after_play_counterexample:
  "\<not> isl (playAudio False (stopped_session quarter_second 1 0))
   \<and> isPlaying (advance (1 / 2) (projr (playAudio False (stopped_session quarter_second 1 0))))
   \<and> \<not> isl (pauseAudio (advance (1 / 2)
              (projr (playAudio False (stopped_session quarter_second 1 0)))))
   \<and> pausedTimeRef (projr (pauseAudio (advance (1 / 2)
              (projr (playAudio False (stopped_session quarter_second 1 0)))))) = 0
   \<and> (1 :: real) * (1 / 2) \<noteq> 0"
  unfolding playAudio_stopped
  by (simp add: advance_def pauseAudio_def Let_def duration_quarter_second)

text \<open>
  The hypothesis of C7 holds for the state after mounting, play, 500 ms and pause on a
  two-second buffer.
\<close>

theorem cursor_in_range_witness:
  "reachable two_seconds
     \<lparr> audioBuffer = Some two_seconds, speed = 1, pitch = 0,
       isPlaying = False, currentTime = 0, duration = buffer_duration two_seconds,
       audioContextRef = Some (1 / 2),
       sourceNodeRef = Some \<lparr> src_offset = 0, src_playbackRate = 1, src_detune = 0,
                               src_stopped = True, src_onended = False \<rparr>,
       startTimeRef = 0, pausedTimeRef = 1 / 2 \<rparr>
   \<and> pausedTimeRef
        \<lparr> audioBuffer = Some two_seconds, speed = 1, pitch = 0,
          isPlaying = False, currentTime = 0, duration = buffer_duration two_seconds,
          audioContextRef = Some (1 / 2),
          sourceNodeRef = Some \<lparr> src_offset = 0, src_playbackRate = 1, src_detune = 0,
                                  src_stopped = True, src_onended = False \<rparr>,
          startTimeRef = 0, pausedTimeRef = 1 / 2 \<rparr> \<le> buffer_duration two_seconds"
proof -
  define s0 where "s0 = stopped_session two_seconds 1 0"
  define s1 where "s1 = \<lparr> audioBuffer = Some two_seconds, speed = 1, pitch = 0,
           isPlaying = True, currentTime = 0, duration = buffer_duration two_seconds,
           audioContextRef = Some 0,
           sourceNodeRef = Some \<lparr> src_offset = 0, src_playbackRate = 1, src_detune = 0,
                                   src_stopped = False, src_onended = False \<rparr>,
           startTimeRef = 0, pausedTimeRef = 0 \<rparr>"
  define s3 where "s3 = \<lparr> audioBuffer = Some two_seconds, speed = 1, pitch = 0,
       isPlaying = False, currentTime = 0, duration = buffer_duration two_seconds,
       audioContextRef = Some (1 / 2),
       sourceNodeRef = Some \<lparr> src_offset = 0, src_playbackRate = 1, src_detune = 0,
                               src_stopped = True, src_onended = False \<rparr>,
       startTimeRef = 0, pausedTimeRef = 1 / 2 \<rparr>"
  have r0: "reachable two_seconds s0"
    by (rule reachable.mounted [of 1 False two_seconds 0])
       (simp_all add: bufferEffect_stopped s0_def)
  have p: "playAudio (isPlaying s0) s0 = Inr s1"
    unfolding s0_def s1_def playAudio_stopped
    by (simp add: stopped_session_def initial_def)
  have r1: "reachable two_seconds s1" using r0 p by (rule reachable.play)
  have r2: "reachable two_seconds (advance (1 / 2) s1)"
    using r1 by (rule reachable.clock) simp
  have q: "pauseAudio (advance (1 / 2) s1) = Inr s3"
    by (simp add: pauseAudio_def advance_def s1_def s3_def Let_def source_stop_def
        duration_two_seconds)
  have r3: "reachable two_seconds s3" using r2 q by (rule reachable.pause)
  from cursor_in_range [OF r3] show ?thesis using r3 unfolding s3_def by simp
qed













section \<open>Properties of the application\<close>


lemma failed_keeps:
  "history (failed env e s) = history s
   \<and> currentAudioBuffer (failed env e s) = currentAudioBuffer s
   \<and> \<not> isLoading (failed env e s) \<and> app_error (failed env e s) \<noteq> None"
  by (simp add: failed_def)

text \<open>
  Claim C10. When the script is not blank and the generation fails at the speech
  synthesis call, at the base64 decoding or at the PCM decoding (or at the construction
  of the audio context, between the last two), the history is the history before the
  attempt and the current audio buffer is null; loading has ended and an error message
  is set.
\<close>

theorem failed_generation_installs_nothing:
  assumes "trim (app_text s) \<noteq> []"
    and "isl (generateSpeech env (app_text s) (selectedVoice s))
         \<or> isl (decodeBase64 (projr (generateSpeech env (app_text s) (selectedVoice s))))
         \<or> isl (newAudioContext env)
         \<or> isl (decodeAudioData
                  (projr (decodeBase64 (projr (generateSpeech env (app_text s) (selectedVoice s)))))
                  (projr (newAudioContext env)) 24000 1)"
  shows "history (handleGenerate env s) = history s
         \<and> currentAudioBuffer (handleGenerate env s) = None
         \<and> \<not> isLoading (handleGenerate env s)
         \<and> app_error (handleGenerate env s) \<noteq> None"
proof -
  define s1 where "s1 = s\<lparr> isLoading := True, app_error := None, currentAudioBuffer := None \<rparr>"
  have k: "history s1 = history s" "currentAudioBuffer s1 = None" by (simp_all add: s1_def)
  have "\<exists>e. handleGenerate env s = failed env e s1"
    using assms
    by (auto simp: handleGenerate_def Let_def s1_def split: sum.splits)
  then show ?thesis using failed_keeps [of env _ s1] k by auto
qed

lemma decodeBase64_AA: "decodeBase64 ''AA=='' = Inr [0]"
  by (simp add: decodeBase64_def atob_def strip_padding_def is_ascii_whitespace_def
      b64_index_def Let_def)

lemma generateSpeech_one_byte: "generateSpeech one_byte_env txt v = Inr ''AA==''"
  by (simp add: generateSpeech_def one_byte_env_def)

text \<open>
  The hypotheses of C10 hold when the service answers with a single byte of audio: the
  PCM decoding fails, for want of a whole frame.
\<close>

theorem failed_generation_installs_nothing_witness:
  "trim (app_text hello_app) \<noteq> []
   \<and> isl (decodeAudioData
          (projr (decodeBase64 (projr (generateSpeech one_byte_env (app_text hello_app)
                                         (selectedVoice hello_app)))))
          (projr (newAudioContext one_byte_env)) 24000 1)
   \<and> history (handleGenerate one_byte_env hello_app) = history hello_app
   \<and> currentAudioBuffer (handleGenerate one_byte_env hello_app) = None
   \<and> \<not> isLoading (handleGenerate one_byte_env hello_app)
   \<and> app_error (handleGenerate one_byte_env hello_app) \<noteq> None"
proof -
  have t: "trim (app_text hello_app) \<noteq> []"
    by (simp add: hello_app_def trim_def is_space_def)
  have c: "newAudioContext one_byte_env = Inr ctx0" by (simp add: one_byte_env_def)
  have d: "isl (decodeAudioData
          (projr (decodeBase64 (projr (generateSpeech one_byte_env (app_text hello_app)
                                         (selectedVoice hello_app)))))
          (projr (newAudioContext one_byte_env)) 24000 1)"
    unfolding generateSpeech_one_byte sum.sel decodeBase64_AA c
    by (simp add: decodeAudioData_no_frames)
  from failed_generation_installs_nothing [of hello_app one_byte_env] t d
  show ?thesis by blast
qed

end
